theory Spec2Isabelle
  imports Main "HOL-Library.AList"
begin

section \<open>Request queue and authorization state of the wallet background service\<close>

text \<open>
  The development embeds the class \<open>State\<close> (background/handlers/State.ts, the file
  that exports \<open>AuthorizedAccountsDiff\<close>, \<open>AuthResponse\<close> and \<open>NotificationOptions\<close>)
  and the resolution commands of the class \<open>Extension\<close>
  (background/handlers/Extension.ts). Both classes are merged into one record of state;
  every method takes the state and returns its result together with the state it leaves
  behind, so that a method that throws half-way keeps the mutations made before the throw.

  The background service handles one message at a time, and the model runs every command
  to its end before the next: the callbacks of the browser (the window that was created,
  the DID read from its store, the stored metadata map) are taken at once. The keyring,
  the signing of a payload, the chain registry and the browser are collaborators outside
  the repository; each is modelled by the little the handlers rely on, said where it is
  introduced. The second read of the durable entries that the constructor makes when
  \<open>localStorage\<close> is missing comes back through a callback and is left out.
\<close>

subsection \<open>Errors\<close>

text \<open>
  Every \<open>throw\<close>, every failed \<open>assert\<close> and every \<open>Error\<close> handed to a reject
  continuation is a value of \<open>error\<close>. The constructors carry the names of the
  specification; the message of the source is given beside each.
\<close>

datatype error =
    NotFound          \<comment> \<open>'Unable to find request', 'Unable to find DID signing request',
                          'The source ... is not known'\<close>
  | DuplicateRequest  \<comment> \<open>'The source ... has a pending authorization request'\<close>
  | InvalidURL        \<comment> \<open>'Invalid url ..., expected to start with http: or https: or ipfs: or ipns:'\<close>
  | NotAllowed        \<comment> \<open>'The source ... is not allowed to interact with this extension'\<close>
  | PairNotFound      \<comment> \<open>'Unable to find pair'\<close>
  | PasswordNeeded    \<comment> \<open>'Password needed to unlock the account'\<close>
  | WrongPassword     \<comment> \<open>the exception of \<open>pair.decodePkcs8\<close> on a passphrase that does not decode\<close>
  | WrongDidPassword  \<comment> \<open>'Wrong DID password'\<close>
  | DidNotFound       \<comment> \<open>'DID not found'\<close>
  | Cancelled         \<comment> \<open>'Cancelled'\<close>
  | Rejected          \<comment> \<open>'Rejected'\<close>
  | TypeError         \<comment> \<open>the runtime's TypeError on reading or writing a property of undefined\<close>
  | OtherError string \<comment> \<open>any other Error handed to a continuation\<close>

subsection \<open>Data\<close>

text \<open>
  A JavaScript object used as a dictionary is an association list in the order
  \<open>Object.entries\<close> enumerates it: a write to a present key keeps its place, a write to
  an absent key appends (\<open>AList.update\<close>), \<open>delete\<close> removes the key (\<open>AList.delete\<close>)
  and a read is \<open>map_of\<close>. (Origins and request ids are not array indices, which a
  JavaScript object would enumerate first.)

  A request id is a value of the counter of \<open>getId\<close> below.
\<close>

type_synonym request_id = nat

record auth_url_info =
  au_authorizedAccounts :: "string list"
  au_authorizedDids :: "string list option"  \<comment> \<open>\<open>authorizedDids?\<close>: \<open>None\<close> is undefined\<close>
  au_count :: nat
  au_id :: "string option"                   \<comment> \<open>the \<open>idStr\<close> of the request, a result of \<open>stripUrl\<close>\<close>
  au_isAllowed :: "bool option"              \<comment> \<open>legacy field, never written here\<close>
  au_origin :: string
  au_url :: string

type_synonym auth_urls = "(string \<times> auth_url_info) list"

text \<open>\<open>AuthorizedAccountsDiff\<close>: \<open>[url, authorizedAccounts, authorizedDids?][]\<close>.\<close>

type_synonym authorized_accounts_diff = "(string \<times> string list \<times> string list option) list"

record auth_response =
  res_result :: bool
  res_authorizedAccounts :: "string list"
  res_authorizedDids :: "string list"

text \<open>
  The entries of the pending tables. The two continuations every entry carries are the
  closures \<open>authComplete(id, resolve, reject)\<close> and its three siblings; they capture
  the id under which the entry is stored, so the model calls them by that id
  (\<open>authComplete_resolve\<close>, \<open>authComplete_reject\<close>, ...).
\<close>

record auth_request =
  ar_id :: request_id
  ar_idStr :: "string option"
  ar_request_origin :: string    \<comment> \<open>\<open>request: RequestAuthorizeTab\<close>, of which \<open>origin\<close> is read\<close>
  ar_url :: string

record metadata_def =
  md_genesisHash :: string
  md_body :: string              \<comment> \<open>the remaining fields of \<open>MetadataDef\<close>, none of them read here\<close>

record meta_request =
  mr_id :: request_id
  mr_request :: metadata_def
  mr_url :: string

datatype signer_payload =
    PayloadJSON (payload_address: string) (payload_genesisHash: string) string
  | PayloadRaw (payload_address: string) string

text \<open>
  The signing capability is opaque: \<open>request.sign(registry, pair)\<close> is the symbolic
  value \<open>SignedBy payload address\<close>. A signature the popup supplies itself
  (\<open>signing.approve.signature\<close>) is \<open>HexSignature\<close>.
\<close>

datatype signature = HexSignature string | SignedBy signer_payload string

definition request_sign :: "signer_payload \<Rightarrow> string \<Rightarrow> signature" where
  "request_sign payload pair_address = SignedBy payload pair_address"

record sign_request =
  sr_account_address :: string   \<comment> \<open>\<open>account: AccountJson\<close>, of which \<open>address\<close> is read\<close>
  sr_id :: request_id
  sr_request :: signer_payload   \<comment> \<open>\<open>request: RequestSign\<close>, its \<open>payload\<close>\<close>
  sr_url :: string

record did_sign_request =
  dr_did :: string
  dr_id :: request_id
  dr_name :: "string option"
  dr_request :: signer_payload
  dr_url :: string

text \<open>What the promise returned to the page receives: one entry per call of a captured
  \<open>resolve\<close> or \<open>reject\<close> of \<open>new Promise\<close>, in the order of the calls.\<close>

datatype outcome =
    ResolvedAuth auth_response
  | ResolvedMeta bool
  | ResolvedSign request_id signature
  | ResolvedDidSign request_id signature
  | RejectedWith error

text \<open>
  The keyring is an external collaborator. A pair is locked or unlocked;
  \<open>decodePkcs8(password)\<close> unlocks it when the password is the passphrase its secret is
  encrypted under and throws otherwise. The DID store keeps such a pair, as JSON, under
  the key \<open>did:\<close> followed by the DID.

  Modelled from the spec: the metadata store and the DID store (their base class,
  stores/Base.ts, is not among the sources). The spec treats the storage engine as "a
  key-value store with get/set/remove/enumerate"; the model keeps each store as the list
  of its entries in the order \<open>allMap\<close> enumerates them, \<open>get\<close> reads a key, \<open>set\<close>
  writes it and \<open>remove\<close> deletes it.
\<close>

record keyring_pair =
  kp_isLocked :: bool
  kp_passphrase :: string

record did_json =
  dj_address :: string
  dj_passphrase :: string

datatype window_opts = POPUP_WINDOW_OPTS | NORMAL_WINDOW_OPTS

text \<open>The badge text: a literal string, or the template literal \<open>`${signCount}`\<close>.\<close>

datatype badge_text = Text string | CountText nat

record state =
  authUrls :: auth_urls
  authRequests :: "(request_id \<times> auth_request) list"
  metaStore :: "(string \<times> metadata_def) list"
  metaRequests :: "(request_id \<times> meta_request) list"
  didSignRequests :: "(request_id \<times> did_sign_request) list"
  notification :: string
  signRequests :: "(request_id \<times> sign_request) list"
  windows :: "nat list"
  authSubject :: "(request_id \<times> string \<times> string) list"
  metaSubject :: "meta_request list"
  signSubject :: "sign_request list"
  didSignSubject :: "did_sign_request list"
  defaultAuthAccountSelection :: "string list"
  \<comment> \<open>the two durable entries \<open>authUrls\<close> and \<open>defaultAuthAccounts\<close> behind
      \<open>readStored\<close>/\<open>writeStored\<close>; \<open>None\<close> before the first write\<close>
  storedAuthUrls :: "auth_urls option"
  storedDefaultAuthAccounts :: "string list option"
  \<comment> \<open>the chain registry of \<open>addMetadata\<close>/\<open>knownMetadata\<close>, keyed by genesis hash\<close>
  chainMetadata :: "(string \<times> metadata_def) list"
  \<comment> \<open>the browser: badge, windows asked for, windows closed\<close>
  badgeText :: badge_text
  windowsCreated :: "window_opts list"
  windowsRemoved :: "nat list"
  \<comment> \<open>\<open>getId\<close>'s counter and the calls of the promises' continuations\<close>
  idCounter :: nat
  settled :: "(request_id \<times> outcome) list"
  \<comment> \<open>class \<open>Extension\<close>: unlock cache, DID store; and the keyring\<close>
  cachedUnlocks :: "(string \<times> int) list"
  didsStore :: "(string \<times> did_json) list"
  keyringPairs :: "(string \<times> keyring_pair) list"

type_synonym 'a result = "(error + 'a) \<times> state"

subsection \<open>Origins\<close>

definition startsWith :: "string \<Rightarrow> string \<Rightarrow> bool" where
  "startsWith s p \<longleftrightarrow> take (length p) s = p"

text \<open>\<open>String.prototype.split\<close> with a one-character separator.\<close>

fun split :: "char \<Rightarrow> string \<Rightarrow> string list" where
  "split c [] = [[]]"
| "split c (x # xs) =
     (if x = c then [] # split c xs
      else (case split c xs of [] \<Rightarrow> [[x]] | p # ps \<Rightarrow> (x # p) # ps))"

text \<open>Indexing an array: out of range is \<open>undefined\<close>, here \<open>None\<close>.\<close>

definition at_index :: "'a list \<Rightarrow> nat \<Rightarrow> 'a option" where
  "at_index xs i = (if i < length xs then Some (xs ! i) else None)"

definition allowed_scheme :: "string \<Rightarrow> bool" where
  "allowed_scheme url \<longleftrightarrow>
     url \<noteq> [] \<and> (startsWith url ''http:'' \<or> startsWith url ''https:''
                \<or> startsWith url ''ipfs:'' \<or> startsWith url ''ipns:'')"

text \<open>
  \<open>stripUrl\<close> returns \<open>parts[2]\<close>; a url with fewer than two slashes has none, and
  the method returns \<open>undefined\<close>.
\<close>

definition stripUrl :: "string \<Rightarrow> error + string option" where
  "stripUrl url =
     (if \<not> allowed_scheme url then Inl InvalidURL
      else Inr (at_index (split CHR ''/'' url) 2))"

text \<open>A property key is a string: \<open>obj[undefined]\<close> is \<open>obj['undefined']\<close>.\<close>

definition prop_key :: "string option \<Rightarrow> string" where
  "prop_key k = (case k of None \<Rightarrow> ''undefined'' | Some s \<Rightarrow> s)"

subsection \<open>Class State: views, badge and notification window\<close>

text \<open>The views \<open>Object.values(table).map(...)\<close>: the authorize view keeps
  \<open>id\<close>, \<open>request\<close> and \<open>url\<close>; the other three keep every field but the continuations.\<close>

definition allAuthRequests :: "state \<Rightarrow> (request_id \<times> string \<times> string) list" where
  "allAuthRequests s = map (\<lambda>(k, r). (ar_id r, ar_request_origin r, ar_url r)) (authRequests s)"

definition allMetaRequests :: "state \<Rightarrow> meta_request list" where
  "allMetaRequests s = map snd (metaRequests s)"

definition allSignRequests :: "state \<Rightarrow> sign_request list" where
  "allSignRequests s = map snd (signRequests s)"

definition allDidSignRequests :: "state \<Rightarrow> did_sign_request list" where
  "allDidSignRequests s = map snd (didSignRequests s)"

definition popupClose :: "state \<Rightarrow> state" where
  "popupClose s = s\<lparr>windowsRemoved := windowsRemoved s @ windows s, windows := []\<rparr>"

text \<open>
  \<open>chrome.windows.create\<close> answers through a callback that pushes the id of the new
  window; the model pushes it at once and numbers the windows in the order of creation.
\<close>

definition popupOpen :: "state \<Rightarrow> state" where
  "popupOpen s =
     (if notification s \<noteq> ''extension''
      then s\<lparr>windowsCreated := windowsCreated s
                 @ [if notification s = ''window'' then NORMAL_WINDOW_OPTS else POPUP_WINDOW_OPTS],
              windows := windows s @ [Suc (length (windowsCreated s))]\<rparr>
      else s)"

definition updateIcon :: "bool \<Rightarrow> state \<Rightarrow> state" where
  "updateIcon shouldClose s =
     (let authCount = length (authRequests s);
          metaCount = length (metaRequests s);
          signCount = length (signRequests s) + length (didSignRequests s);
          text = (if authCount \<noteq> 0 then Text ''Auth''
                  else if metaCount \<noteq> 0 then Text ''Meta''
                  else if signCount \<noteq> 0 then CountText signCount else Text '''');
          s1 = s\<lparr>badgeText := text\<rparr>
      in if shouldClose \<and> text = Text '''' then popupClose s1 else s1)"

definition updateIconAuth :: "bool \<Rightarrow> state \<Rightarrow> state" where
  "updateIconAuth shouldClose s = updateIcon shouldClose (s\<lparr>authSubject := allAuthRequests s\<rparr>)"

definition updateIconMeta :: "bool \<Rightarrow> state \<Rightarrow> state" where
  "updateIconMeta shouldClose s = updateIcon shouldClose (s\<lparr>metaSubject := allMetaRequests s\<rparr>)"

definition updateIconSign :: "bool \<Rightarrow> state \<Rightarrow> state" where
  "updateIconSign shouldClose s = updateIcon shouldClose (s\<lparr>signSubject := allSignRequests s\<rparr>)"

definition updateIconDidSign :: "bool \<Rightarrow> state \<Rightarrow> state" where
  "updateIconDidSign shouldClose s =
     updateIcon shouldClose (s\<lparr>didSignSubject := allDidSignRequests s\<rparr>)"

subsection \<open>Class State: the durable entries\<close>

text \<open>\<open>JSON.stringify\<close> of the value written is the value at the time of the write.\<close>

definition saveCurrentAuthList :: "state \<Rightarrow> state" where
  "saveCurrentAuthList s = s\<lparr>storedAuthUrls := Some (authUrls s)\<rparr>"

definition saveDefaultAuthAccounts :: "state \<Rightarrow> state" where
  "saveDefaultAuthAccounts s =
     s\<lparr>storedDefaultAuthAccounts := Some (defaultAuthAccountSelection s)\<rparr>"

definition updateDefaultAuthAccounts :: "string list \<Rightarrow> state \<Rightarrow> state" where
  "updateDefaultAuthAccounts newList s =
     saveDefaultAuthAccounts (s\<lparr>defaultAuthAccountSelection := newList\<rparr>)"

subsection \<open>Class State: the continuations of the pending entries\<close>

text \<open>
  \<open>authComplete(id, resolve, reject)\<close>. Its inner \<open>complete\<close> reads the entry first
  (a TypeError when it is gone), calls \<open>stripUrl\<close> (which may throw before anything is
  written), writes the authorization entry, saves the list, overwrites the default
  selection with the accounts it was given, deletes the entry and refreshes the badge.
  The default values of its two parameters are the empty lists.
\<close>

definition authComplete_complete ::
  "request_id \<Rightarrow> string list \<Rightarrow> string list \<Rightarrow> state \<Rightarrow> unit result" where
  "authComplete_complete i authorizedAccounts authorizedDids s =
     (case map_of (authRequests s) i of
        None \<Rightarrow> (Inl TypeError, s)
      | Some r \<Rightarrow>
          (case stripUrl (ar_url r) of
             Inl e \<Rightarrow> (Inl e, s)
           | Inr stripped \<Rightarrow>
               let s1 = s\<lparr>authUrls := AList.update (prop_key stripped)
                           \<lparr>au_authorizedAccounts = authorizedAccounts,
                            au_authorizedDids = Some authorizedDids,
                            au_count = 0,
                            au_id = ar_idStr r,
                            au_isAllowed = None,
                            au_origin = ar_request_origin r,
                            au_url = ar_url r\<rparr> (authUrls s)\<rparr>;
                   s2 = saveCurrentAuthList s1;
                   s3 = updateDefaultAuthAccounts authorizedAccounts s2;
                   s4 = s3\<lparr>authRequests := AList.delete i (authRequests s3)\<rparr>
               in (Inr (), updateIconAuth True s4)))"

definition authComplete_reject :: "request_id \<Rightarrow> error \<Rightarrow> state \<Rightarrow> unit result" where
  "authComplete_reject i err s =
     (case authComplete_complete i [] [] s of
        (Inl e, s1) \<Rightarrow> (Inl e, s1)
      | (Inr _, s1) \<Rightarrow> (Inr (), s1\<lparr>settled := settled s1 @ [(i, RejectedWith err)]\<rparr>))"

definition authComplete_resolve :: "request_id \<Rightarrow> auth_response \<Rightarrow> state \<Rightarrow> unit result" where
  "authComplete_resolve i response s =
     (case authComplete_complete i (res_authorizedAccounts response)
             (res_authorizedDids response) s of
        (Inl e, s1) \<Rightarrow> (Inl e, s1)
      | (Inr _, s1) \<Rightarrow>
          (Inr (), s1\<lparr>settled := settled s1 @
             [(i, ResolvedAuth \<lparr>res_result = res_result response,
                                res_authorizedAccounts = res_authorizedAccounts response,
                                res_authorizedDids = res_authorizedDids response\<rparr>)]\<rparr>))"

text \<open>\<open>metaComplete\<close>, \<open>signComplete\<close>, \<open>didSignComplete\<close>: delete, refresh, settle.\<close>

definition metaComplete_complete :: "request_id \<Rightarrow> state \<Rightarrow> state" where
  "metaComplete_complete i s =
     updateIconMeta True (s\<lparr>metaRequests := AList.delete i (metaRequests s)\<rparr>)"

definition metaComplete_reject :: "request_id \<Rightarrow> error \<Rightarrow> state \<Rightarrow> state" where
  "metaComplete_reject i err s =
     (let s1 = metaComplete_complete i s
      in s1\<lparr>settled := settled s1 @ [(i, RejectedWith err)]\<rparr>)"

definition metaComplete_resolve :: "request_id \<Rightarrow> bool \<Rightarrow> state \<Rightarrow> state" where
  "metaComplete_resolve i res s =
     (let s1 = metaComplete_complete i s
      in s1\<lparr>settled := settled s1 @ [(i, ResolvedMeta res)]\<rparr>)"

definition signComplete_complete :: "request_id \<Rightarrow> state \<Rightarrow> state" where
  "signComplete_complete i s =
     updateIconSign True (s\<lparr>signRequests := AList.delete i (signRequests s)\<rparr>)"

definition signComplete_reject :: "request_id \<Rightarrow> error \<Rightarrow> state \<Rightarrow> state" where
  "signComplete_reject i err s =
     (let s1 = signComplete_complete i s
      in s1\<lparr>settled := settled s1 @ [(i, RejectedWith err)]\<rparr>)"

definition signComplete_resolve :: "request_id \<Rightarrow> request_id \<times> signature \<Rightarrow> state \<Rightarrow> state" where
  "signComplete_resolve i res s =
     (let s1 = signComplete_complete i s
      in s1\<lparr>settled := settled s1 @ [(i, ResolvedSign (fst res) (snd res))]\<rparr>)"

definition didSignComplete_complete :: "request_id \<Rightarrow> state \<Rightarrow> state" where
  "didSignComplete_complete i s =
     updateIconDidSign True (s\<lparr>didSignRequests := AList.delete i (didSignRequests s)\<rparr>)"

definition didSignComplete_reject :: "request_id \<Rightarrow> error \<Rightarrow> state \<Rightarrow> state" where
  "didSignComplete_reject i err s =
     (let s1 = didSignComplete_complete i s
      in s1\<lparr>settled := settled s1 @ [(i, RejectedWith err)]\<rparr>)"

definition didSignComplete_resolve ::
  "request_id \<Rightarrow> request_id \<times> signature \<Rightarrow> state \<Rightarrow> state" where
  "didSignComplete_resolve i res s =
     (let s1 = didSignComplete_complete i s
      in s1\<lparr>settled := settled s1 @ [(i, ResolvedDidSign (fst res) (snd res))]\<rparr>)"

subsection \<open>Class State: the authorization store\<close>

definition deleteAuthRequest :: "request_id \<Rightarrow> state \<Rightarrow> state" where
  "deleteAuthRequest requestId s =
     updateIconAuth True (s\<lparr>authRequests := AList.delete requestId (authRequests s)\<rparr>)"

definition removeAuthorization :: "string \<Rightarrow> state \<Rightarrow> auth_urls result" where
  "removeAuthorization url s =
     (case map_of (authUrls s) url of
        None \<Rightarrow> (Inl NotFound, s)
      | Some entry \<Rightarrow>
          let s1 = saveCurrentAuthList (s\<lparr>authUrls := AList.delete url (authUrls s)\<rparr>)
          in (Inr (authUrls s1), s1))"

text \<open>
  The body of the \<open>forEach\<close> of \<open>updateAuthorizedAccounts\<close>, entry after entry: the
  write \<open>this.#authUrls[url].authorizedAccounts = ...\<close> throws a TypeError when the
  origin has no entry, and the entries before it stay written.
\<close>

fun updateAuthorizedAccounts_forEach ::
  "authorized_accounts_diff \<Rightarrow> auth_urls \<Rightarrow> (error + unit) \<times> auth_urls" where
  "updateAuthorizedAccounts_forEach [] au = (Inr (), au)"
| "updateAuthorizedAccounts_forEach ((url, authorizedAccountDiff, authorizedDids) # rest) au =
     (case map_of au url of
        None \<Rightarrow> (Inl TypeError, au)
      | Some info \<Rightarrow>
          let info1 = info\<lparr>au_authorizedAccounts := authorizedAccountDiff\<rparr>;
              info2 = (case authorizedDids of
                         None \<Rightarrow> info1
                       | Some dids \<Rightarrow> info1\<lparr>au_authorizedDids := Some dids\<rparr>)
          in updateAuthorizedAccounts_forEach rest (AList.update url info2 au))"

definition updateAuthorizedAccounts :: "authorized_accounts_diff \<Rightarrow> state \<Rightarrow> unit result" where
  "updateAuthorizedAccounts authorizedAccountDiff s =
     (case updateAuthorizedAccounts_forEach authorizedAccountDiff (authUrls s) of
        (Inl e, au) \<Rightarrow> (Inl e, s\<lparr>authUrls := au\<rparr>)
      | (Inr _, au) \<Rightarrow> (Inr (), saveCurrentAuthList (s\<lparr>authUrls := au\<rparr>)))"

subsection \<open>Class State: enqueueing\<close>

text \<open>
  Modelled from the spec: \<open>getId\<close> (utils/getId.js is not among the sources). The spec
  calls the id "process-wide unique, monotonically assigned"; the model hands out the
  successive values of a counter and uses them, as numbers, for the keys of the pending
  tables.
\<close>

definition getId :: "state \<Rightarrow> request_id \<times> state" where
  "getId s = (Suc (idCounter s), s\<lparr>idCounter := Suc (idCounter s)\<rparr>)"

text \<open>What an \<open>async\<close> method or a \<open>new Promise\<close> hands back: a value at once, or
  a promise that one of the continuations stored under the id settles later.\<close>

datatype 'a promise = Returned 'a | Pending request_id

text \<open>Every array is truthy, the empty one too.\<close>

definition truthy_array :: "'a list \<Rightarrow> bool" where
  "truthy_array xs = True"

definition authorizeUrl :: "string \<Rightarrow> string \<Rightarrow> state \<Rightarrow> auth_response promise result" where
  "authorizeUrl url request_origin s =
     (case stripUrl url of
        Inl e \<Rightarrow> (Inl e, s)
      | Inr idStr \<Rightarrow>
          if list_ex (\<lambda>request. ar_idStr request = idStr) (map snd (authRequests s))
          then (Inl DuplicateRequest, s)
          else
            (case map_of (authUrls s) (prop_key idStr) of
               Some info \<Rightarrow>
                 if \<not> (truthy_array (au_authorizedAccounts info) \<or> au_isAllowed info = Some True)
                 then (Inl NotAllowed, s)
                 else (Inr (Returned \<lparr>res_result = False, res_authorizedAccounts = [],
                                      res_authorizedDids = []\<rparr>), s)
             | None \<Rightarrow>
                 let (i, s1) = getId s;
                     s2 = s1\<lparr>authRequests := AList.update i
                            \<lparr>ar_id = i, ar_idStr = idStr, ar_request_origin = request_origin,
                             ar_url = url\<rparr> (authRequests s1)\<rparr>;
                     s3 = updateIconAuth False s2
                 in (Inr (Pending i), popupOpen s3)))"

definition injectMetadata :: "string \<Rightarrow> metadata_def \<Rightarrow> state \<Rightarrow> request_id \<times> state" where
  "injectMetadata url request s =
     (let (i, s1) = getId s;
          s2 = s1\<lparr>metaRequests := AList.update i
                 \<lparr>mr_id = i, mr_request = request, mr_url = url\<rparr> (metaRequests s1)\<rparr>;
          s3 = updateIconMeta False s2
      in (i, popupOpen s3))"

definition sign :: "string \<Rightarrow> signer_payload \<Rightarrow> string \<Rightarrow> state \<Rightarrow> request_id \<times> state" where
  "sign url request account_address s =
     (let (i, s1) = getId s;
          s2 = s1\<lparr>signRequests := AList.update i
                 \<lparr>sr_account_address = account_address, sr_id = i, sr_request = request,
                  sr_url = url\<rparr> (signRequests s1)\<rparr>;
          s3 = updateIconSign False s2
      in (i, popupOpen s3))"

definition didSign ::
  "string \<Rightarrow> signer_payload \<Rightarrow> string \<Rightarrow> string option \<Rightarrow> state \<Rightarrow> request_id \<times> state" where
  "didSign url request did name s =
     (let (i, s1) = getId s;
          s2 = s1\<lparr>didSignRequests := AList.update i
                 \<lparr>dr_did = did, dr_id = i, dr_name = name, dr_request = request,
                  dr_url = url\<rparr> (didSignRequests s1)\<rparr>;
          s3 = updateIconDidSign False s2
      in (i, popupOpen s3))"

definition getAuthRequest :: "request_id \<Rightarrow> state \<Rightarrow> auth_request option" where
  "getAuthRequest i s = map_of (authRequests s) i"

definition getMetaRequest :: "request_id \<Rightarrow> state \<Rightarrow> meta_request option" where
  "getMetaRequest i s = map_of (metaRequests s) i"

definition getSignRequest :: "request_id \<Rightarrow> state \<Rightarrow> sign_request option" where
  "getSignRequest i s = map_of (signRequests s) i"

definition getDidSignRequest :: "request_id \<Rightarrow> state \<Rightarrow> did_sign_request option" where
  "getDidSignRequest i s = map_of (didSignRequests s) i"

text \<open>\<open>addMetadata\<close> of the chain registry keeps one definition per genesis hash.\<close>

definition addMetadata :: "metadata_def \<Rightarrow> state \<Rightarrow> state" where
  "addMetadata def s = s\<lparr>chainMetadata := AList.update (md_genesisHash def) def (chainMetadata s)\<rparr>"

definition saveMetadata :: "metadata_def \<Rightarrow> state \<Rightarrow> state" where
  "saveMetadata meta s =
     addMetadata meta (s\<lparr>metaStore := AList.update (md_genesisHash meta) meta (metaStore s)\<rparr>)"

definition setNotification :: "string \<Rightarrow> state \<Rightarrow> state" where
  "setNotification n s = s\<lparr>notification := n\<rparr>"

subsection \<open>Startup: metadata reconciliation and the constructor\<close>

text \<open>
  \<open>knownGenesis\<close> is a table of an external package: the name of each network with
  the genesis hashes it has had. It is a parameter of \<open>extractMetadata\<close>.
  \<open>indexOf\<close> is the first index of an element, or \<open>-1\<close>.
\<close>

type_synonym known_genesis = "(string \<times> string list) list"

fun indexOf :: "'a list \<Rightarrow> 'a \<Rightarrow> int" where
  "indexOf [] x = - 1"
| "indexOf (y # ys) x =
     (if y = x then 0 else (let i = indexOf ys x in if i < 0 then - 1 else i + 1))"

record def_entry =
  de_def :: metadata_def
  de_index :: int
  de_key :: string

text \<open>One turn of the \<open>forEach\<close> over the entries of the stored map, on the two
  accumulators \<open>defs\<close> and \<open>removals\<close>.\<close>

definition extractMetadata_forEach ::
  "known_genesis \<Rightarrow> (string \<times> def_entry) list \<times> string list \<Rightarrow> string \<times> metadata_def
     \<Rightarrow> (string \<times> def_entry) list \<times> string list" where
  "extractMetadata_forEach knownEntries acc kd =
     (let (defs, removals) = acc; (key, def) = kd
      in case List.find (\<lambda>(name, hashes). md_genesisHash def \<in> set hashes) knownEntries of
           Some (name, hashes) \<Rightarrow>
             let index = indexOf hashes (md_genesisHash def)
             in (case map_of defs name of
                   None \<Rightarrow>
                     (AList.update name \<lparr>de_def = def, de_index = index, de_key = key\<rparr> defs,
                      removals)
                 | Some old \<Rightarrow>
                     if de_index old > index
                     then (AList.update name \<lparr>de_def = def, de_index = index, de_key = key\<rparr> defs,
                           removals @ [de_key old])
                     else (defs, removals))
         | None \<Rightarrow>
             (AList.update key \<lparr>de_def = def, de_index = 0, de_key = key\<rparr> defs, removals))"

definition extractMetadata_scan ::
  "known_genesis \<Rightarrow> (string \<times> metadata_def) list \<Rightarrow> (string \<times> def_entry) list \<times> string list" where
  "extractMetadata_scan knownEntries stored =
     foldl (extractMetadata_forEach knownEntries) ([], []) stored"

definition extractMetadata :: "known_genesis \<Rightarrow> state \<Rightarrow> state" where
  "extractMetadata knownEntries s =
     (let (defs, removals) = extractMetadata_scan knownEntries (metaStore s);
          s1 = s\<lparr>metaStore := foldl (\<lambda>store key. AList.delete key store) (metaStore s) removals\<rparr>
      in foldl (\<lambda>st d. addMetadata (de_def d) st) s1 (map snd defs))"

text \<open>
  The constructor: empty tables, the reconciliation pass over the metadata store, and the
  two durable entries read back, an absent one as the empty object or the empty array.
\<close>

definition new_State ::
  "known_genesis \<Rightarrow> (string \<times> metadata_def) list \<Rightarrow> auth_urls option \<Rightarrow> string list option
     \<Rightarrow> string \<Rightarrow> (string \<times> did_json) list \<Rightarrow> (string \<times> keyring_pair) list \<Rightarrow> state" where
  "new_State knownEntries storedMeta storedAuth storedDefault notif dids pairs =
     extractMetadata knownEntries
       \<lparr>authUrls = (case storedAuth of None \<Rightarrow> [] | Some a \<Rightarrow> a),
        authRequests = [], metaStore = storedMeta, metaRequests = [], didSignRequests = [],
        notification = notif, signRequests = [], windows = [],
        authSubject = [], metaSubject = [], signSubject = [], didSignSubject = [],
        defaultAuthAccountSelection = (case storedDefault of None \<Rightarrow> [] | Some d \<Rightarrow> d),
        storedAuthUrls = storedAuth, storedDefaultAuthAccounts = storedDefault,
        chainMetadata = [], badgeText = Text [], windowsCreated = [], windowsRemoved = [],
        idCounter = 0, settled = [], cachedUnlocks = [], didsStore = dids,
        keyringPairs = pairs\<rparr>"

subsection \<open>Class Extension: the commands\<close>

text \<open>\<open>accountsForget\<close>: the cycle through \<open>authUrls\<close> that prepares the array of diff,
  then the update of the store, of the default selection and of the keyring.\<close>

definition accountsForget_diff :: "string \<Rightarrow> auth_urls \<Rightarrow> authorized_accounts_diff" where
  "accountsForget_diff address au =
     concat (map (\<lambda>(url, urlInfo).
               if address \<notin> set (au_authorizedAccounts urlInfo) then []
               else [(url, filter (\<lambda>previousAddress. previousAddress \<noteq> address)
                              (au_authorizedAccounts urlInfo), None)])
             au)"

definition accountsForget :: "string \<Rightarrow> state \<Rightarrow> bool result" where
  "accountsForget address s =
     (let authorizedAccountsDiff = accountsForget_diff address (authUrls s)
      in case updateAuthorizedAccounts authorizedAccountsDiff s of
           (Inl e, s1) \<Rightarrow> (Inl e, s1)
         | (Inr _, s1) \<Rightarrow>
             let newDefaultAuthAccounts =
                   filter (\<lambda>defaultSelectionAddress. defaultSelectionAddress \<noteq> address)
                     (defaultAuthAccountSelection s1);
                 s2 = updateDefaultAuthAccounts newDefaultAuthAccounts s1
             in (Inr True, s2\<lparr>keyringPairs := AList.delete address (keyringPairs s2)\<rparr>))"

definition pair_lock :: "string \<Rightarrow> state \<Rightarrow> state" where
  "pair_lock address s =
     (case map_of (keyringPairs s) address of
        None \<Rightarrow> s
      | Some pair \<Rightarrow>
          s\<lparr>keyringPairs := AList.update address (pair\<lparr>kp_isLocked := True\<rparr>) (keyringPairs s)\<rparr>)"

definition pair_isLocked :: "string \<Rightarrow> state \<Rightarrow> bool" where
  "pair_isLocked address s =
     (case map_of (keyringPairs s) address of None \<Rightarrow> False | Some pair \<Rightarrow> kp_isLocked pair)"

text \<open>\<open>pair.decodePkcs8(password)\<close>: unlocked, or the exception.\<close>

definition pair_decodePkcs8 :: "string \<Rightarrow> string \<Rightarrow> state \<Rightarrow> unit result" where
  "pair_decodePkcs8 address password s =
     (case map_of (keyringPairs s) address of
        None \<Rightarrow> (Inl PairNotFound, s)
      | Some pair \<Rightarrow>
          if kp_passphrase pair = password
          then (Inr (), s\<lparr>keyringPairs :=
                            AList.update address (pair\<lparr>kp_isLocked := False\<rparr>) (keyringPairs s)\<rparr>)
          else (Inl WrongPassword, s))"

text \<open>\<open>now\<close> is \<open>Date.now()\<close>. The cache is keyed by \<open>pair.address\<close>, the address in
  the default encoding; the model writes one string for an address in every encoding.\<close>

definition refreshAccountPasswordCache :: "int \<Rightarrow> string \<Rightarrow> state \<Rightarrow> int \<times> state" where
  "refreshAccountPasswordCache now address s =
     (let savedExpiry = (case map_of (cachedUnlocks s) address of None \<Rightarrow> 0 | Some e \<Rightarrow> e);
          remainingTime = savedExpiry - now
      in if remainingTime < 0
         then (0, pair_lock address (s\<lparr>cachedUnlocks := AList.update address 0 (cachedUnlocks s)\<rparr>))
         else (remainingTime, s))"

definition authorizeApprove ::
  "request_id \<Rightarrow> string list \<Rightarrow> string list \<Rightarrow> state \<Rightarrow> bool result" where
  "authorizeApprove i authorizedAccounts authorizedDids s =
     (case getAuthRequest i s of
        None \<Rightarrow> (Inl NotFound, s)
      | Some queued \<Rightarrow>
          (case authComplete_resolve i \<lparr>res_result = True,
                    res_authorizedAccounts = authorizedAccounts,
                    res_authorizedDids = authorizedDids\<rparr> s of
             (Inl e, s1) \<Rightarrow> (Inl e, s1)
           | (Inr _, s1) \<Rightarrow> (Inr True, s1)))"

definition authorizeUpdate ::
  "string \<Rightarrow> string list \<Rightarrow> string list option \<Rightarrow> state \<Rightarrow> unit result" where
  "authorizeUpdate url authorizedAccounts authorizedDids s =
     updateAuthorizedAccounts [(url, authorizedAccounts, authorizedDids)] s"

definition metadataApprove :: "request_id \<Rightarrow> state \<Rightarrow> bool result" where
  "metadataApprove i s =
     (case getMetaRequest i s of
        None \<Rightarrow> (Inl NotFound, s)
      | Some queued \<Rightarrow>
          (Inr True, metaComplete_resolve i True (saveMetadata (mr_request queued) s)))"

definition metadataReject :: "request_id \<Rightarrow> state \<Rightarrow> bool result" where
  "metadataReject i s =
     (case getMetaRequest i s of
        None \<Rightarrow> (Inl NotFound, s)
      | Some queued \<Rightarrow> (Inr True, metaComplete_reject i Rejected s))"

text \<open>
  \<open>signingApprovePassword\<close>. \<open>expiry\<close> is the constant \<open>PASSWORD_EXPIRY_MS\<close> of the
  defaults, a parameter here. The registry built between unlocking and signing only
  feeds the opaque \<open>request.sign\<close> and is left out. The rejection for a missing password
  is not followed by a \<open>return\<close>: the method goes on to \<open>decodePkcs8\<close>.
\<close>

definition signingApprovePassword ::
  "int \<Rightarrow> int \<Rightarrow> request_id \<Rightarrow> string \<Rightarrow> bool \<Rightarrow> state \<Rightarrow> bool result" where
  "signingApprovePassword now expiry i password savePass s =
     (case getSignRequest i s of
        None \<Rightarrow> (Inl NotFound, s)
      | Some queued \<Rightarrow>
          let address = sr_account_address queued
          in (case map_of (keyringPairs s) address of
                None \<Rightarrow> (Inr False, signComplete_reject i PairNotFound s)
              | Some pair \<Rightarrow>
                  let s1 = snd (refreshAccountPasswordCache now address s);
                      s2 = (if pair_isLocked address s1 \<and> password = []
                            then signComplete_reject i PasswordNeeded s1 else s1)
                  in (case (if pair_isLocked address s2
                            then pair_decodePkcs8 address password s2 else (Inr (), s2)) of
                        (Inl e, s3) \<Rightarrow> (Inl e, s3)
                      | (Inr _, s3) \<Rightarrow>
                          let result = request_sign (sr_request queued) address;
                              s4 = (if savePass
                                    then s3\<lparr>cachedUnlocks :=
                                              AList.update address (now + expiry) (cachedUnlocks s3)\<rparr>
                                    else pair_lock address s3)
                          in (Inr True, signComplete_resolve i (i, result) s4))))"

definition signingApproveSignature :: "request_id \<Rightarrow> string \<Rightarrow> state \<Rightarrow> bool result" where
  "signingApproveSignature i sig s =
     (case getSignRequest i s of
        None \<Rightarrow> (Inl NotFound, s)
      | Some queued \<Rightarrow> (Inr True, signComplete_resolve i (i, HexSignature sig) s))"

definition signingCancel :: "request_id \<Rightarrow> state \<Rightarrow> bool result" where
  "signingCancel i s =
     (case getSignRequest i s of
        None \<Rightarrow> (Inl NotFound, s)
      | Some queued \<Rightarrow> (Inr True, signComplete_reject i Cancelled s))"

text \<open>\<open>signingIsLocked\<close> answers \<open>{isLocked, remainingTime}\<close>; it looks the pair up by the
  address of the payload and refreshes the unlock cache on the way.\<close>

definition signingIsLocked :: "int \<Rightarrow> request_id \<Rightarrow> state \<Rightarrow> (bool \<times> int) result" where
  "signingIsLocked now i s =
     (case getSignRequest i s of
        None \<Rightarrow> (Inl NotFound, s)
      | Some queued \<Rightarrow>
          let address = payload_address (sr_request queued)
          in (case map_of (keyringPairs s) address of
                None \<Rightarrow> (Inl PairNotFound, s)
              | Some pair \<Rightarrow>
                  let refreshed = refreshAccountPasswordCache now address s;
                      remainingTime = fst refreshed; s1 = snd refreshed
                  in (Inr (pair_isLocked address s1, remainingTime), s1)))"

text \<open>
  \<open>didsSignApprove\<close>. The lookup in the DID store rejects the inner promise on a
  miss, and the \<open>await\<close> throws that error out of the method; the pair built from the
  JSON is local to the call.
\<close>

definition didsSignApprove :: "request_id \<Rightarrow> string \<Rightarrow> state \<Rightarrow> bool result" where
  "didsSignApprove i password s =
     (case getDidSignRequest i s of
        None \<Rightarrow> (Inl NotFound, s)
      | Some queued \<Rightarrow>
          (case map_of (didsStore s) (''did:'' @ dr_did queued) of
             None \<Rightarrow> (Inl DidNotFound, s)
           | Some didJson \<Rightarrow>
               if dj_passphrase didJson \<noteq> password
               then (Inr False, didSignComplete_reject i WrongDidPassword s)
               else
                 let result = request_sign (dr_request queued) (dj_address didJson)
                 in (Inr True, didSignComplete_resolve i (i, result) s)))"

definition didsSignCancel :: "request_id \<Rightarrow> state \<Rightarrow> bool result" where
  "didsSignCancel i s =
     (case getDidSignRequest i s of
        None \<Rightarrow> (Inl NotFound, s)
      | Some queued \<Rightarrow> (Inr True, didSignComplete_reject i Cancelled s))"

subsection \<open>The commands that settle a pending request\<close>

text \<open>
  The cases of \<open>Extension.handle\<close> that approve, reject or cancel a pending request,
  with the arguments each takes beside the id.
\<close>

datatype resolution =
    AuthorizeApprove "string list" "string list"    \<comment> \<open>\<open>pri(authorize.approve)\<close>\<close>
  | MetadataApprove                                 \<comment> \<open>\<open>pri(metadata.approve)\<close>\<close>
  | MetadataReject                                  \<comment> \<open>\<open>pri(metadata.reject)\<close>\<close>
  | SigningApprovePassword int int string bool      \<comment> \<open>\<open>pri(signing.approve.password)\<close>\<close>
  | SigningApproveSignature string                  \<comment> \<open>\<open>pri(signing.approve.signature)\<close>\<close>
  | SigningCancel                                   \<comment> \<open>\<open>pri(signing.cancel)\<close>\<close>
  | DidsSignApprove string                          \<comment> \<open>\<open>pri(dids.sign.approve)\<close>\<close>
  | DidsSignCancel                                  \<comment> \<open>\<open>pri(dids.sign.cancel)\<close>\<close>

fun resolve_command :: "resolution \<Rightarrow> request_id \<Rightarrow> state \<Rightarrow> bool result" where
  "resolve_command (AuthorizeApprove accounts dids) i s = authorizeApprove i accounts dids s"
| "resolve_command MetadataApprove i s = metadataApprove i s"
| "resolve_command MetadataReject i s = metadataReject i s"
| "resolve_command (SigningApprovePassword now expiry password savePass) i s =
     signingApprovePassword now expiry i password savePass s"
| "resolve_command (SigningApproveSignature sig) i s = signingApproveSignature i sig s"
| "resolve_command SigningCancel i s = signingCancel i s"
| "resolve_command (DidsSignApprove password) i s = didsSignApprove i password s"
| "resolve_command DidsSignCancel i s = didsSignCancel i s"

subsection \<open>The states the service can be in\<close>

text \<open>
  Everything that changes the state: the four requests of a page (each calls its method
  of \<open>State\<close> with the url of the page's tab), the commands above, the reject
  continuation of an authorize entry, and the other commands of the popup that touch
  the authorization store or the pending tables. Creating, restoring and removing
  accounts and DIDs rewrites the keyring and the DID store and nothing else of this
  state; the last two commands stand for that.
\<close>

datatype command =
    RequestAuthorize string string
  | RequestMetadata string metadata_def
  | RequestSign string signer_payload string
  | RequestDidSign string signer_payload string "string option"
  | Resolve resolution request_id
  | AuthorizeRejected request_id error
  | AuthorizeDeleteRequest request_id              \<comment> \<open>\<open>pri(authorize.delete.request)\<close>\<close>
  | AuthorizeRemove string                         \<comment> \<open>\<open>pri(authorize.remove)\<close>\<close>
  | AuthorizeUpdate string "string list" "string list option"  \<comment> \<open>\<open>pri(authorize.update)\<close>\<close>
  | AccountsForget string                          \<comment> \<open>\<open>pri(accounts.forget)\<close>\<close>
  | SigningIsLocked int request_id                 \<comment> \<open>\<open>pri(signing.isLocked)\<close>\<close>
  | SettingsNotification string                    \<comment> \<open>\<open>pri(settings.notification)\<close>\<close>
  | KeyringChanged "(string \<times> keyring_pair) list"
  | DidsStoreChanged "(string \<times> did_json) list"

fun exec :: "command \<Rightarrow> state \<Rightarrow> state" where
  "exec (RequestAuthorize url request_origin) s = snd (authorizeUrl url request_origin s)"
| "exec (RequestMetadata url request) s = snd (injectMetadata url request s)"
| "exec (RequestSign url request address) s = snd (sign url request address s)"
| "exec (RequestDidSign url request did name) s = snd (didSign url request did name s)"
| "exec (Resolve c i) s = snd (resolve_command c i s)"
| "exec (AuthorizeRejected i err) s = snd (authComplete_reject i err s)"
| "exec (AuthorizeDeleteRequest i) s = deleteAuthRequest i s"
| "exec (AuthorizeRemove url) s = snd (removeAuthorization url s)"
| "exec (AuthorizeUpdate url accounts dids) s = snd (authorizeUpdate url accounts dids s)"
| "exec (AccountsForget address) s = snd (accountsForget address s)"
| "exec (SigningIsLocked now i) s = snd (signingIsLocked now i s)"
| "exec (SettingsNotification n) s = setNotification n s"
| "exec (KeyringChanged pairs) s = s\<lparr>keyringPairs := pairs\<rparr>"
| "exec (DidsStoreChanged dids) s = s\<lparr>didsStore := dids\<rparr>"

text \<open>
  The url of a tab has an authority: the scheme is followed by two slashes, so that
  \<open>stripUrl\<close> yields a string. (A url such as \<open>http:\<close> passes the assertion of
  \<open>stripUrl\<close> and has no third part; its request has the \<open>idStr\<close> undefined and its
  entry is stored under the key \<open>'undefined'\<close>. No page has such a url, and the reachable
  states leave it out.) The stored authorization list is a JSON object and has every key
  once.
\<close>

fun tab_url :: "command \<Rightarrow> bool" where
  "tab_url (RequestAuthorize url request_origin) = (stripUrl url \<noteq> Inr None)"
| "tab_url c = True"

inductive reachable :: "state \<Rightarrow> bool" where
  start: "distinct (map fst (case storedAuth of None \<Rightarrow> [] | Some a \<Rightarrow> a)) \<Longrightarrow>
          reachable (new_State knownEntries storedMeta storedAuth storedDefault notif dids pairs)"
| step: "reachable s \<Longrightarrow> tab_url c \<Longrightarrow> reachable (exec c s)"

subsection \<open>Invariants\<close>

text \<open>
  The invariant of the data model: an id is in at most one pending table, and every id
  in a table has been handed out by \<open>getId\<close>.
\<close>

definition pending_ids_disjoint :: "state \<Rightarrow> bool" where
  "pending_ids_disjoint s \<longleftrightarrow>
     (let a = fst ` set (authRequests s); m = fst ` set (metaRequests s);
          g = fst ` set (signRequests s); d = fst ` set (didSignRequests s)
      in a \<inter> m = {} \<and> a \<inter> g = {} \<and> a \<inter> d = {} \<and> m \<inter> g = {} \<and> m \<inter> d = {} \<and> g \<inter> d = {})"

definition pending_ids_issued :: "state \<Rightarrow> bool" where
  "pending_ids_issued s \<longleftrightarrow>
     (\<forall>i \<in> fst ` set (authRequests s) \<union> fst ` set (metaRequests s)
            \<union> fst ` set (signRequests s) \<union> fst ` set (didSignRequests s). i \<le> idCounter s)"

text \<open>
  The invariant of the authorize flow: the store has one entry per key; the pending
  authorize requests have pairwise different origins; each was enqueued by
  \<open>authorizeUrl\<close> for the url of a tab, so its \<open>idStr\<close> is the origin of its url; and no
  pending request is for an origin that has an entry.
\<close>

definition auth_consistent :: "state \<Rightarrow> bool" where
  "auth_consistent s \<longleftrightarrow>
     distinct (map fst (authUrls s)) \<and>
     distinct (map (\<lambda>p. ar_idStr (snd p)) (authRequests s)) \<and>
     (\<forall>p \<in> set (authRequests s).
        ar_idStr (snd p) \<noteq> None \<and> stripUrl (ar_url (snd p)) = Inr (ar_idStr (snd p))
        \<and> prop_key (ar_idStr (snd p)) \<notin> fst ` set (authUrls s))"

subsection \<open>Example states\<close>

text \<open>A fresh service with one account and one DID, and the states a few requests lead to.\<close>

definition example_start :: state where
  "example_start =
     new_State [(''kusama'', [''0xb0a8'', ''0xe377''])] [] None None ''popup''
       [(''did:did1'', \<lparr>dj_address = ''did1key'', dj_passphrase = ''didpw''\<rparr>)]
       [(''alice'', \<lparr>kp_isLocked = True, kp_passphrase = ''secret''\<rparr>)]"

definition example_authorize_pending :: state where
  "example_authorize_pending = exec (RequestAuthorize ''https://a.com/x'' ''app'') example_start"

definition example_sign_pending :: state where
  "example_sign_pending =
     exec (RequestSign ''https://a.com/x'' (PayloadRaw ''alice'' ''0xdeadbeef'') ''alice'')
       example_start"

definition example_did_sign_pending :: state where
  "example_did_sign_pending =
     exec (RequestDidSign ''https://a.com/x'' (PayloadRaw ''did2key'' ''0xdeadbeef'') ''did2'' None)
       example_start"

text \<open>A service started on a stored authorization list of two origins.\<close>

definition example_stored_auth :: auth_urls where
  "example_stored_auth =
     [(''a.com'', \<lparr>au_authorizedAccounts = [''alice'', ''bob''], au_authorizedDids = Some [''did1''],
                   au_count = 0, au_id = Some ''a.com'', au_isAllowed = None,
                   au_origin = ''app'', au_url = ''https://a.com/x''\<rparr>),
      (''b.org'', \<lparr>au_authorizedAccounts = [''bob''], au_authorizedDids = None,
                   au_count = 0, au_id = Some ''b.org'', au_isAllowed = None,
                   au_origin = ''other'', au_url = ''https://b.org/''\<rparr>)]"

definition example_authorized :: state where
  "example_authorized =
     new_State [] [] (Some example_stored_auth) (Some [''alice'', ''bob'']) ''popup'' []
       [(''alice'', \<lparr>kp_isLocked = True, kp_passphrase = ''secret''\<rparr>)]"

definition example_authorized_pending :: state where
  "example_authorized_pending =
     exec (RequestAuthorize ''https://c.io/x'' ''newapp'') example_authorized"

text \<open>What forgetting an address does to one entry of the store: the address is filtered
  out of its list of authorized accounts.\<close>

definition forget_entry :: "string \<Rightarrow> string \<times> auth_url_info \<Rightarrow> string \<times> auth_url_info" where
  "forget_entry address p =
     (fst p, (snd p)\<lparr>au_authorizedAccounts :=
                     filter (\<lambda>previousAddress. previousAddress \<noteq> address)
                       (au_authorizedAccounts (snd p))\<rparr>)"

text \<open>A metadata store holding both genesis hashes of one network, in the two orders.\<close>

definition example_known_genesis :: known_genesis where
  "example_known_genesis = [(''kusama'', [''0xb0a8'', ''0xe377''])]"

definition example_meta_newer_first :: "(string \<times> metadata_def) list" where
  "example_meta_newer_first =
     [(''0xb0a8'', \<lparr>md_genesisHash = ''0xb0a8'', md_body = ''current''\<rparr>),
      (''0xe377'', \<lparr>md_genesisHash = ''0xe377'', md_body = ''superseded''\<rparr>)]"

definition example_meta_older_first :: "(string \<times> metadata_def) list" where
  "example_meta_older_first =
     [(''0xe377'', \<lparr>md_genesisHash = ''0xe377'', md_body = ''superseded''\<rparr>),
      (''0xb0a8'', \<lparr>md_genesisHash = ''0xb0a8'', md_body = ''current''\<rparr>)]"

section \<open>Frame lemmas\<close>

text \<open>What each helper leaves alone, field by field.\<close>

lemma popupClose_frame [simp]:
  "authUrls (popupClose s) = authUrls s"
  "authRequests (popupClose s) = authRequests s"
  "metaRequests (popupClose s) = metaRequests s"
  "signRequests (popupClose s) = signRequests s"
  "didSignRequests (popupClose s) = didSignRequests s"
  "idCounter (popupClose s) = idCounter s"
  "settled (popupClose s) = settled s"
  "defaultAuthAccountSelection (popupClose s) = defaultAuthAccountSelection s"
  "storedAuthUrls (popupClose s) = storedAuthUrls s"
  "storedDefaultAuthAccounts (popupClose s) = storedDefaultAuthAccounts s"
  "keyringPairs (popupClose s) = keyringPairs s"
  "didsStore (popupClose s) = didsStore s"
  "cachedUnlocks (popupClose s) = cachedUnlocks s"
  "metaStore (popupClose s) = metaStore s"
  "notification (popupClose s) = notification s"
  by (simp_all add: popupClose_def)

lemma popupOpen_frame [simp]:
  "authUrls (popupOpen s) = authUrls s"
  "authRequests (popupOpen s) = authRequests s"
  "metaRequests (popupOpen s) = metaRequests s"
  "signRequests (popupOpen s) = signRequests s"
  "didSignRequests (popupOpen s) = didSignRequests s"
  "idCounter (popupOpen s) = idCounter s"
  "settled (popupOpen s) = settled s"
  "defaultAuthAccountSelection (popupOpen s) = defaultAuthAccountSelection s"
  "storedAuthUrls (popupOpen s) = storedAuthUrls s"
  "storedDefaultAuthAccounts (popupOpen s) = storedDefaultAuthAccounts s"
  "keyringPairs (popupOpen s) = keyringPairs s"
  "didsStore (popupOpen s) = didsStore s"
  "cachedUnlocks (popupOpen s) = cachedUnlocks s"
  "metaStore (popupOpen s) = metaStore s"
  "notification (popupOpen s) = notification s"
  by (simp_all add: popupOpen_def)

lemma updateIcon_frame [simp]:
  "authUrls (updateIcon b s) = authUrls s"
  "authRequests (updateIcon b s) = authRequests s"
  "metaRequests (updateIcon b s) = metaRequests s"
  "signRequests (updateIcon b s) = signRequests s"
  "didSignRequests (updateIcon b s) = didSignRequests s"
  "idCounter (updateIcon b s) = idCounter s"
  "settled (updateIcon b s) = settled s"
  "defaultAuthAccountSelection (updateIcon b s) = defaultAuthAccountSelection s"
  "storedAuthUrls (updateIcon b s) = storedAuthUrls s"
  "storedDefaultAuthAccounts (updateIcon b s) = storedDefaultAuthAccounts s"
  "keyringPairs (updateIcon b s) = keyringPairs s"
  "didsStore (updateIcon b s) = didsStore s"
  "cachedUnlocks (updateIcon b s) = cachedUnlocks s"
  "metaStore (updateIcon b s) = metaStore s"
  "notification (updateIcon b s) = notification s"
  by (simp_all add: updateIcon_def Let_def)

lemma updateIconAuth_frame [simp]:
  "authUrls (updateIconAuth b s) = authUrls s"
  "authRequests (updateIconAuth b s) = authRequests s"
  "metaRequests (updateIconAuth b s) = metaRequests s"
  "signRequests (updateIconAuth b s) = signRequests s"
  "didSignRequests (updateIconAuth b s) = didSignRequests s"
  "idCounter (updateIconAuth b s) = idCounter s"
  "settled (updateIconAuth b s) = settled s"
  "defaultAuthAccountSelection (updateIconAuth b s) = defaultAuthAccountSelection s"
  "storedAuthUrls (updateIconAuth b s) = storedAuthUrls s"
  "storedDefaultAuthAccounts (updateIconAuth b s) = storedDefaultAuthAccounts s"
  "keyringPairs (updateIconAuth b s) = keyringPairs s"
  "didsStore (updateIconAuth b s) = didsStore s"
  "cachedUnlocks (updateIconAuth b s) = cachedUnlocks s"
  "metaStore (updateIconAuth b s) = metaStore s"
  "notification (updateIconAuth b s) = notification s"
  by (simp_all add: updateIconAuth_def)

lemma updateIconMeta_frame [simp]:
  "authUrls (updateIconMeta b s) = authUrls s"
  "authRequests (updateIconMeta b s) = authRequests s"
  "metaRequests (updateIconMeta b s) = metaRequests s"
  "signRequests (updateIconMeta b s) = signRequests s"
  "didSignRequests (updateIconMeta b s) = didSignRequests s"
  "idCounter (updateIconMeta b s) = idCounter s"
  "settled (updateIconMeta b s) = settled s"
  "defaultAuthAccountSelection (updateIconMeta b s) = defaultAuthAccountSelection s"
  "storedAuthUrls (updateIconMeta b s) = storedAuthUrls s"
  "storedDefaultAuthAccounts (updateIconMeta b s) = storedDefaultAuthAccounts s"
  "keyringPairs (updateIconMeta b s) = keyringPairs s"
  "didsStore (updateIconMeta b s) = didsStore s"
  "cachedUnlocks (updateIconMeta b s) = cachedUnlocks s"
  "metaStore (updateIconMeta b s) = metaStore s"
  "notification (updateIconMeta b s) = notification s"
  by (simp_all add: updateIconMeta_def)

lemma updateIconSign_frame [simp]:
  "authUrls (updateIconSign b s) = authUrls s"
  "authRequests (updateIconSign b s) = authRequests s"
  "metaRequests (updateIconSign b s) = metaRequests s"
  "signRequests (updateIconSign b s) = signRequests s"
  "didSignRequests (updateIconSign b s) = didSignRequests s"
  "idCounter (updateIconSign b s) = idCounter s"
  "settled (updateIconSign b s) = settled s"
  "defaultAuthAccountSelection (updateIconSign b s) = defaultAuthAccountSelection s"
  "storedAuthUrls (updateIconSign b s) = storedAuthUrls s"
  "storedDefaultAuthAccounts (updateIconSign b s) = storedDefaultAuthAccounts s"
  "keyringPairs (updateIconSign b s) = keyringPairs s"
  "didsStore (updateIconSign b s) = didsStore s"
  "cachedUnlocks (updateIconSign b s) = cachedUnlocks s"
  "metaStore (updateIconSign b s) = metaStore s"
  "notification (updateIconSign b s) = notification s"
  by (simp_all add: updateIconSign_def)

lemma updateIconDidSign_frame [simp]:
  "authUrls (updateIconDidSign b s) = authUrls s"
  "authRequests (updateIconDidSign b s) = authRequests s"
  "metaRequests (updateIconDidSign b s) = metaRequests s"
  "signRequests (updateIconDidSign b s) = signRequests s"
  "didSignRequests (updateIconDidSign b s) = didSignRequests s"
  "idCounter (updateIconDidSign b s) = idCounter s"
  "settled (updateIconDidSign b s) = settled s"
  "defaultAuthAccountSelection (updateIconDidSign b s) = defaultAuthAccountSelection s"
  "storedAuthUrls (updateIconDidSign b s) = storedAuthUrls s"
  "storedDefaultAuthAccounts (updateIconDidSign b s) = storedDefaultAuthAccounts s"
  "keyringPairs (updateIconDidSign b s) = keyringPairs s"
  "didsStore (updateIconDidSign b s) = didsStore s"
  "cachedUnlocks (updateIconDidSign b s) = cachedUnlocks s"
  "metaStore (updateIconDidSign b s) = metaStore s"
  "notification (updateIconDidSign b s) = notification s"
  by (simp_all add: updateIconDidSign_def)

lemma saveCurrentAuthList_frame [simp]:
  "authUrls (saveCurrentAuthList s) = authUrls s"
  "authRequests (saveCurrentAuthList s) = authRequests s"
  "metaRequests (saveCurrentAuthList s) = metaRequests s"
  "signRequests (saveCurrentAuthList s) = signRequests s"
  "didSignRequests (saveCurrentAuthList s) = didSignRequests s"
  "idCounter (saveCurrentAuthList s) = idCounter s"
  "settled (saveCurrentAuthList s) = settled s"
  "defaultAuthAccountSelection (saveCurrentAuthList s) = defaultAuthAccountSelection s"
  "storedDefaultAuthAccounts (saveCurrentAuthList s) = storedDefaultAuthAccounts s"
  "keyringPairs (saveCurrentAuthList s) = keyringPairs s"
  "didsStore (saveCurrentAuthList s) = didsStore s"
  "cachedUnlocks (saveCurrentAuthList s) = cachedUnlocks s"
  "metaStore (saveCurrentAuthList s) = metaStore s"
  "notification (saveCurrentAuthList s) = notification s"
  by (simp_all add: saveCurrentAuthList_def)

lemma saveDefaultAuthAccounts_frame [simp]:
  "authUrls (saveDefaultAuthAccounts s) = authUrls s"
  "authRequests (saveDefaultAuthAccounts s) = authRequests s"
  "metaRequests (saveDefaultAuthAccounts s) = metaRequests s"
  "signRequests (saveDefaultAuthAccounts s) = signRequests s"
  "didSignRequests (saveDefaultAuthAccounts s) = didSignRequests s"
  "idCounter (saveDefaultAuthAccounts s) = idCounter s"
  "settled (saveDefaultAuthAccounts s) = settled s"
  "defaultAuthAccountSelection (saveDefaultAuthAccounts s) = defaultAuthAccountSelection s"
  "storedAuthUrls (saveDefaultAuthAccounts s) = storedAuthUrls s"
  "keyringPairs (saveDefaultAuthAccounts s) = keyringPairs s"
  "didsStore (saveDefaultAuthAccounts s) = didsStore s"
  "cachedUnlocks (saveDefaultAuthAccounts s) = cachedUnlocks s"
  "metaStore (saveDefaultAuthAccounts s) = metaStore s"
  "notification (saveDefaultAuthAccounts s) = notification s"
  by (simp_all add: saveDefaultAuthAccounts_def)

lemma updateDefaultAuthAccounts_frame [simp]:
  "authUrls (updateDefaultAuthAccounts l s) = authUrls s"
  "authRequests (updateDefaultAuthAccounts l s) = authRequests s"
  "metaRequests (updateDefaultAuthAccounts l s) = metaRequests s"
  "signRequests (updateDefaultAuthAccounts l s) = signRequests s"
  "didSignRequests (updateDefaultAuthAccounts l s) = didSignRequests s"
  "idCounter (updateDefaultAuthAccounts l s) = idCounter s"
  "settled (updateDefaultAuthAccounts l s) = settled s"
  "storedAuthUrls (updateDefaultAuthAccounts l s) = storedAuthUrls s"
  "keyringPairs (updateDefaultAuthAccounts l s) = keyringPairs s"
  "didsStore (updateDefaultAuthAccounts l s) = didsStore s"
  "cachedUnlocks (updateDefaultAuthAccounts l s) = cachedUnlocks s"
  "metaStore (updateDefaultAuthAccounts l s) = metaStore s"
  "notification (updateDefaultAuthAccounts l s) = notification s"
  by (simp_all add: updateDefaultAuthAccounts_def)

lemma addMetadata_frame [simp]:
  "authUrls (addMetadata d s) = authUrls s"
  "authRequests (addMetadata d s) = authRequests s"
  "metaRequests (addMetadata d s) = metaRequests s"
  "signRequests (addMetadata d s) = signRequests s"
  "didSignRequests (addMetadata d s) = didSignRequests s"
  "idCounter (addMetadata d s) = idCounter s"
  "settled (addMetadata d s) = settled s"
  "defaultAuthAccountSelection (addMetadata d s) = defaultAuthAccountSelection s"
  "storedAuthUrls (addMetadata d s) = storedAuthUrls s"
  "storedDefaultAuthAccounts (addMetadata d s) = storedDefaultAuthAccounts s"
  "keyringPairs (addMetadata d s) = keyringPairs s"
  "didsStore (addMetadata d s) = didsStore s"
  "cachedUnlocks (addMetadata d s) = cachedUnlocks s"
  "metaStore (addMetadata d s) = metaStore s"
  "notification (addMetadata d s) = notification s"
  by (simp_all add: addMetadata_def)

lemma saveMetadata_frame [simp]:
  "authUrls (saveMetadata d s) = authUrls s"
  "authRequests (saveMetadata d s) = authRequests s"
  "metaRequests (saveMetadata d s) = metaRequests s"
  "signRequests (saveMetadata d s) = signRequests s"
  "didSignRequests (saveMetadata d s) = didSignRequests s"
  "idCounter (saveMetadata d s) = idCounter s"
  "settled (saveMetadata d s) = settled s"
  "defaultAuthAccountSelection (saveMetadata d s) = defaultAuthAccountSelection s"
  "storedAuthUrls (saveMetadata d s) = storedAuthUrls s"
  "storedDefaultAuthAccounts (saveMetadata d s) = storedDefaultAuthAccounts s"
  "keyringPairs (saveMetadata d s) = keyringPairs s"
  "didsStore (saveMetadata d s) = didsStore s"
  "cachedUnlocks (saveMetadata d s) = cachedUnlocks s"
  "notification (saveMetadata d s) = notification s"
  by (simp_all add: saveMetadata_def)

lemma pair_lock_frame [simp]:
  "authUrls (pair_lock a s) = authUrls s"
  "authRequests (pair_lock a s) = authRequests s"
  "metaRequests (pair_lock a s) = metaRequests s"
  "signRequests (pair_lock a s) = signRequests s"
  "didSignRequests (pair_lock a s) = didSignRequests s"
  "idCounter (pair_lock a s) = idCounter s"
  "settled (pair_lock a s) = settled s"
  "defaultAuthAccountSelection (pair_lock a s) = defaultAuthAccountSelection s"
  "storedAuthUrls (pair_lock a s) = storedAuthUrls s"
  "storedDefaultAuthAccounts (pair_lock a s) = storedDefaultAuthAccounts s"
  "didsStore (pair_lock a s) = didsStore s"
  "cachedUnlocks (pair_lock a s) = cachedUnlocks s"
  "metaStore (pair_lock a s) = metaStore s"
  "notification (pair_lock a s) = notification s"
  by (simp_all add: pair_lock_def split: option.splits)

lemma saveCurrentAuthList_stored [simp]:
  "storedAuthUrls (saveCurrentAuthList s) = Some (authUrls s)"
  by (simp add: saveCurrentAuthList_def)

lemma saveDefaultAuthAccounts_stored [simp]:
  "storedDefaultAuthAccounts (saveDefaultAuthAccounts s) = Some (defaultAuthAccountSelection s)"
  by (simp add: saveDefaultAuthAccounts_def)

lemma updateDefaultAuthAccounts_written [simp]:
  "defaultAuthAccountSelection (updateDefaultAuthAccounts l s) = l"
  "storedDefaultAuthAccounts (updateDefaultAuthAccounts l s) = Some l"
  by (simp_all add: updateDefaultAuthAccounts_def saveDefaultAuthAccounts_def)

lemma foldl_addMetadata_frame [simp]:
  "authUrls (foldl (\<lambda>st d. addMetadata (de_def d) st) s ds) = authUrls s"
  "authRequests (foldl (\<lambda>st d. addMetadata (de_def d) st) s ds) = authRequests s"
  "metaRequests (foldl (\<lambda>st d. addMetadata (de_def d) st) s ds) = metaRequests s"
  "signRequests (foldl (\<lambda>st d. addMetadata (de_def d) st) s ds) = signRequests s"
  "didSignRequests (foldl (\<lambda>st d. addMetadata (de_def d) st) s ds) = didSignRequests s"
  "idCounter (foldl (\<lambda>st d. addMetadata (de_def d) st) s ds) = idCounter s"
  "metaStore (foldl (\<lambda>st d. addMetadata (de_def d) st) s ds) = metaStore s"
  by (induction ds arbitrary: s) simp_all

lemma extractMetadata_frame [simp]:
  "authUrls (extractMetadata known s) = authUrls s"
  "authRequests (extractMetadata known s) = authRequests s"
  "metaRequests (extractMetadata known s) = metaRequests s"
  "signRequests (extractMetadata known s) = signRequests s"
  "didSignRequests (extractMetadata known s) = didSignRequests s"
  "idCounter (extractMetadata known s) = idCounter s"
  by (simp_all add: extractMetadata_def Let_def split: prod.splits)

lemma new_State_tables [simp]:
  "authUrls (new_State known sm sa sd n dids pairs) = (case sa of None \<Rightarrow> [] | Some a \<Rightarrow> a)"
  "authRequests (new_State known sm sa sd n dids pairs) = []"
  "metaRequests (new_State known sm sa sd n dids pairs) = []"
  "signRequests (new_State known sm sa sd n dids pairs) = []"
  "didSignRequests (new_State known sm sa sd n dids pairs) = []"
  by (simp_all add: new_State_def)



lemma metaComplete_tables [simp]:
  "authUrls (metaComplete_reject i e s) = authUrls s"
  "authRequests (metaComplete_reject i e s) = authRequests s"
  "metaRequests (metaComplete_reject i e s) = AList.delete i (metaRequests s)"
  "signRequests (metaComplete_reject i e s) = signRequests s"
  "didSignRequests (metaComplete_reject i e s) = didSignRequests s"
  "idCounter (metaComplete_reject i e s) = idCounter s"
  "settled (metaComplete_reject i e s) = settled s @ [(i, RejectedWith e)]"
  "authUrls (metaComplete_resolve i b s) = authUrls s"
  "authRequests (metaComplete_resolve i b s) = authRequests s"
  "metaRequests (metaComplete_resolve i b s) = AList.delete i (metaRequests s)"
  "signRequests (metaComplete_resolve i b s) = signRequests s"
  "didSignRequests (metaComplete_resolve i b s) = didSignRequests s"
  "idCounter (metaComplete_resolve i b s) = idCounter s"
  "settled (metaComplete_resolve i b s) = settled s @ [(i, ResolvedMeta b)]"
  by (simp_all add: metaComplete_reject_def metaComplete_resolve_def metaComplete_complete_def Let_def)

lemma signComplete_tables [simp]:
  "authUrls (signComplete_reject i e s) = authUrls s"
  "authRequests (signComplete_reject i e s) = authRequests s"
  "metaRequests (signComplete_reject i e s) = metaRequests s"
  "signRequests (signComplete_reject i e s) = AList.delete i (signRequests s)"
  "didSignRequests (signComplete_reject i e s) = didSignRequests s"
  "idCounter (signComplete_reject i e s) = idCounter s"
  "keyringPairs (signComplete_reject i e s) = keyringPairs s"
  "cachedUnlocks (signComplete_reject i e s) = cachedUnlocks s"
  "settled (signComplete_reject i e s) = settled s @ [(i, RejectedWith e)]"
  "authUrls (signComplete_resolve i r s) = authUrls s"
  "authRequests (signComplete_resolve i r s) = authRequests s"
  "metaRequests (signComplete_resolve i r s) = metaRequests s"
  "signRequests (signComplete_resolve i r s) = AList.delete i (signRequests s)"
  "didSignRequests (signComplete_resolve i r s) = didSignRequests s"
  "idCounter (signComplete_resolve i r s) = idCounter s"
  "settled (signComplete_resolve i r s) = settled s @ [(i, ResolvedSign (fst r) (snd r))]"
  by (simp_all add: signComplete_reject_def signComplete_resolve_def signComplete_complete_def Let_def)

lemma didSignComplete_tables [simp]:
  "authUrls (didSignComplete_reject i e s) = authUrls s"
  "authRequests (didSignComplete_reject i e s) = authRequests s"
  "metaRequests (didSignComplete_reject i e s) = metaRequests s"
  "signRequests (didSignComplete_reject i e s) = signRequests s"
  "didSignRequests (didSignComplete_reject i e s) = AList.delete i (didSignRequests s)"
  "idCounter (didSignComplete_reject i e s) = idCounter s"
  "settled (didSignComplete_reject i e s) = settled s @ [(i, RejectedWith e)]"
  "authUrls (didSignComplete_resolve i r s) = authUrls s"
  "authRequests (didSignComplete_resolve i r s) = authRequests s"
  "metaRequests (didSignComplete_resolve i r s) = metaRequests s"
  "signRequests (didSignComplete_resolve i r s) = signRequests s"
  "didSignRequests (didSignComplete_resolve i r s) = AList.delete i (didSignRequests s)"
  "idCounter (didSignComplete_resolve i r s) = idCounter s"
  "settled (didSignComplete_resolve i r s) = settled s @ [(i, ResolvedDidSign (fst r) (snd r))]"
  by (simp_all add: didSignComplete_reject_def didSignComplete_resolve_def didSignComplete_complete_def Let_def)

text \<open>authComplete\<close>

lemma authComplete_complete_fail:
  "fst (authComplete_complete i a d s) = Inl e \<Longrightarrow> snd (authComplete_complete i a d s) = s"
  by (auto simp: authComplete_complete_def Let_def split: option.splits sum.splits)

lemma authComplete_complete_ok:
  assumes "fst (authComplete_complete i a d s) = Inr u"
  shows "\<exists>r k. map_of (authRequests s) i = Some r \<and> stripUrl (ar_url r) = Inr k \<and>
      authUrls (snd (authComplete_complete i a d s)) =
        AList.update (prop_key k) \<lparr>au_authorizedAccounts = a, au_authorizedDids = Some d, au_count = 0,
            au_id = ar_idStr r, au_isAllowed = None, au_origin = ar_request_origin r, au_url = ar_url r\<rparr> (authUrls s)
      \<and> authRequests (snd (authComplete_complete i a d s)) = AList.delete i (authRequests s)
      \<and> metaRequests (snd (authComplete_complete i a d s)) = metaRequests s
      \<and> signRequests (snd (authComplete_complete i a d s)) = signRequests s
      \<and> didSignRequests (snd (authComplete_complete i a d s)) = didSignRequests s
      \<and> idCounter (snd (authComplete_complete i a d s)) = idCounter s
      \<and> settled (snd (authComplete_complete i a d s)) = settled s
      \<and> defaultAuthAccountSelection (snd (authComplete_complete i a d s)) = a
      \<and> storedDefaultAuthAccounts (snd (authComplete_complete i a d s)) = Some a
      \<and> storedAuthUrls (snd (authComplete_complete i a d s)) = Some (authUrls (snd (authComplete_complete i a d s)))"
  using assms
  by (auto simp: authComplete_complete_def Let_def split: option.splits sum.splits)

section \<open>How the commands change the tables\<close>

lemma injectMetadata_tables [simp]:
  "authUrls (snd (injectMetadata url req s)) = authUrls s"
  "authRequests (snd (injectMetadata url req s)) = authRequests s"
  "metaRequests (snd (injectMetadata url req s)) =
     AList.update (Suc (idCounter s)) \<lparr>mr_id = Suc (idCounter s), mr_request = req, mr_url = url\<rparr>
       (metaRequests s)"
  "signRequests (snd (injectMetadata url req s)) = signRequests s"
  "didSignRequests (snd (injectMetadata url req s)) = didSignRequests s"
  "idCounter (snd (injectMetadata url req s)) = Suc (idCounter s)"
  by (simp_all add: injectMetadata_def getId_def Let_def)

lemma sign_tables [simp]:
  "authUrls (snd (sign url req a s)) = authUrls s"
  "authRequests (snd (sign url req a s)) = authRequests s"
  "metaRequests (snd (sign url req a s)) = metaRequests s"
  "signRequests (snd (sign url req a s)) =
     AList.update (Suc (idCounter s))
       \<lparr>sr_account_address = a, sr_id = Suc (idCounter s), sr_request = req, sr_url = url\<rparr>
       (signRequests s)"
  "didSignRequests (snd (sign url req a s)) = didSignRequests s"
  "idCounter (snd (sign url req a s)) = Suc (idCounter s)"
  by (simp_all add: sign_def getId_def Let_def)

lemma didSign_tables [simp]:
  "authUrls (snd (didSign url req d n s)) = authUrls s"
  "authRequests (snd (didSign url req d n s)) = authRequests s"
  "metaRequests (snd (didSign url req d n s)) = metaRequests s"
  "signRequests (snd (didSign url req d n s)) = signRequests s"
  "didSignRequests (snd (didSign url req d n s)) =
     AList.update (Suc (idCounter s))
       \<lparr>dr_did = d, dr_id = Suc (idCounter s), dr_name = n, dr_request = req, dr_url = url\<rparr>
       (didSignRequests s)"
  "idCounter (snd (didSign url req d n s)) = Suc (idCounter s)"
  by (simp_all add: didSign_def getId_def Let_def)

lemma deleteAuthRequest_tables [simp]:
  "authUrls (deleteAuthRequest i s) = authUrls s"
  "authRequests (deleteAuthRequest i s) = AList.delete i (authRequests s)"
  "metaRequests (deleteAuthRequest i s) = metaRequests s"
  "signRequests (deleteAuthRequest i s) = signRequests s"
  "didSignRequests (deleteAuthRequest i s) = didSignRequests s"
  "idCounter (deleteAuthRequest i s) = idCounter s"
  by (simp_all add: deleteAuthRequest_def)

lemma removeAuthorization_tables [simp]:
  "authRequests (snd (removeAuthorization url s)) = authRequests s"
  "metaRequests (snd (removeAuthorization url s)) = metaRequests s"
  "signRequests (snd (removeAuthorization url s)) = signRequests s"
  "didSignRequests (snd (removeAuthorization url s)) = didSignRequests s"
  "idCounter (snd (removeAuthorization url s)) = idCounter s"
  by (simp_all add: removeAuthorization_def Let_def split: option.splits)

lemma removeAuthorization_authUrls:
  "authUrls (snd (removeAuthorization url s)) = AList.delete url (authUrls s)"
  by (auto simp add: removeAuthorization_def Let_def map_of_eq_None_iff split: option.splits)

lemma updateAuthorizedAccounts_tables [simp]:
  "authRequests (snd (updateAuthorizedAccounts diff s)) = authRequests s"
  "metaRequests (snd (updateAuthorizedAccounts diff s)) = metaRequests s"
  "signRequests (snd (updateAuthorizedAccounts diff s)) = signRequests s"
  "didSignRequests (snd (updateAuthorizedAccounts diff s)) = didSignRequests s"
  "idCounter (snd (updateAuthorizedAccounts diff s)) = idCounter s"
  "defaultAuthAccountSelection (snd (updateAuthorizedAccounts diff s)) = defaultAuthAccountSelection s"
  "storedDefaultAuthAccounts (snd (updateAuthorizedAccounts diff s)) = storedDefaultAuthAccounts s"
  "keyringPairs (snd (updateAuthorizedAccounts diff s)) = keyringPairs s"
  "authUrls (snd (updateAuthorizedAccounts diff s)) =
     snd (updateAuthorizedAccounts_forEach diff (authUrls s))"
  by (simp_all add: updateAuthorizedAccounts_def split: prod.splits sum.splits)

lemma updateAuthorizedAccounts_forEach_keys:
  "map fst (snd (updateAuthorizedAccounts_forEach diff au)) = map fst au"
proof (induction diff au rule: updateAuthorizedAccounts_forEach.induct)
  case (1 au)
  then show ?case by simp
next
  case (2 url accounts dids rest au)
  show ?case
  proof (cases "map_of au url")
    case None
    then show ?thesis by simp
  next
    case (Some info)
    then have "url \<in> set (map fst au)"
      by (metis map_of_eq_None_iff option.distinct(1) set_map)
    with 2 Some show ?thesis
      by (simp add: Let_def AList.update_keys)
  qed
qed

lemma accountsForget_tables [simp]:
  "authRequests (snd (accountsForget a s)) = authRequests s"
  "metaRequests (snd (accountsForget a s)) = metaRequests s"
  "signRequests (snd (accountsForget a s)) = signRequests s"
  "didSignRequests (snd (accountsForget a s)) = didSignRequests s"
  "idCounter (snd (accountsForget a s)) = idCounter s"
  "authUrls (snd (accountsForget a s)) =
     snd (updateAuthorizedAccounts_forEach (accountsForget_diff a (authUrls s)) (authUrls s))"
proof -
  obtain r s1 where u: "updateAuthorizedAccounts (accountsForget_diff a (authUrls s)) s = (r, s1)"
    by fastforce
  have s1: "s1 = snd (updateAuthorizedAccounts (accountsForget_diff a (authUrls s)) s)"
    using u by simp
  have t: "authRequests s1 = authRequests s" "metaRequests s1 = metaRequests s"
    "signRequests s1 = signRequests s" "didSignRequests s1 = didSignRequests s"
    "idCounter s1 = idCounter s"
    "authUrls s1 = snd (updateAuthorizedAccounts_forEach (accountsForget_diff a (authUrls s)) (authUrls s))"
    unfolding s1 by simp_all
  show "authRequests (snd (accountsForget a s)) = authRequests s"
    "metaRequests (snd (accountsForget a s)) = metaRequests s"
    "signRequests (snd (accountsForget a s)) = signRequests s"
    "didSignRequests (snd (accountsForget a s)) = didSignRequests s"
    "idCounter (snd (accountsForget a s)) = idCounter s"
    "authUrls (snd (accountsForget a s)) =
     snd (updateAuthorizedAccounts_forEach (accountsForget_diff a (authUrls s)) (authUrls s))"
    using t by (cases r; simp add: accountsForget_def u Let_def)+
qed

lemma authorizeUrl_tables [simp]:
  "authUrls (snd (authorizeUrl url req s)) = authUrls s"
  "metaRequests (snd (authorizeUrl url req s)) = metaRequests s"
  "signRequests (snd (authorizeUrl url req s)) = signRequests s"
  "didSignRequests (snd (authorizeUrl url req s)) = didSignRequests s"
  by (simp_all add: authorizeUrl_def getId_def Let_def split: sum.splits option.splits)

lemma authorizeUrl_enqueued:
  assumes "fst (authorizeUrl url req s) = Inr (Pending i)"
  shows "i = Suc (idCounter s) \<and> idCounter (snd (authorizeUrl url req s)) = Suc (idCounter s)
    \<and> (\<exists>idStr. stripUrl url = Inr idStr
         \<and> \<not> list_ex (\<lambda>request. ar_idStr request = idStr) (map snd (authRequests s))
         \<and> map_of (authUrls s) (prop_key idStr) = None
         \<and> authRequests (snd (authorizeUrl url req s)) =
             AList.update i \<lparr>ar_id = i, ar_idStr = idStr, ar_request_origin = req, ar_url = url\<rparr>
               (authRequests s))"
  using assms
  by (auto simp add: authorizeUrl_def getId_def Let_def split: sum.splits option.splits if_splits)

lemma authorizeUrl_not_enqueued:
  assumes "\<forall>i. fst (authorizeUrl url req s) \<noteq> Inr (Pending i)"
  shows "snd (authorizeUrl url req s) = s"
  using assms
  by (auto simp add: authorizeUrl_def getId_def Let_def split: sum.splits option.splits if_splits)

lemma authComplete_complete_cases:
  obtains (fail) e where "authComplete_complete i a d s = (Inl e, s)"
      and "map_of (authRequests s) i = None \<or>
           (\<exists>r. map_of (authRequests s) i = Some r \<and> stripUrl (ar_url r) = Inl e)"
    | (ok) r k s1 where "map_of (authRequests s) i = Some r" and "stripUrl (ar_url r) = Inr k"
      and "authComplete_complete i a d s = (Inr (), s1)"
      and "authUrls s1 = AList.update (prop_key k)
             \<lparr>au_authorizedAccounts = a, au_authorizedDids = Some d, au_count = 0,
              au_id = ar_idStr r, au_isAllowed = None, au_origin = ar_request_origin r,
              au_url = ar_url r\<rparr> (authUrls s)"
      and "authRequests s1 = AList.delete i (authRequests s)"
      and "metaRequests s1 = metaRequests s" and "signRequests s1 = signRequests s"
      and "didSignRequests s1 = didSignRequests s" and "idCounter s1 = idCounter s"
      and "settled s1 = settled s"
      and "defaultAuthAccountSelection s1 = a" and "storedDefaultAuthAccounts s1 = Some a"
      and "storedAuthUrls s1 = Some (authUrls s1)"
proof (cases "map_of (authRequests s) i")
  case None
  then show ?thesis using fail[of TypeError] by (simp add: authComplete_complete_def)
next
  case (Some r)
  show ?thesis
  proof (cases "stripUrl (ar_url r)")
    case (Inl e)
    with Some show ?thesis using fail[of e] by (simp add: authComplete_complete_def)
  next
    case (Inr k)
    with Some show ?thesis
      using ok[of r k "snd (authComplete_complete i a d s)"]
      by (simp add: authComplete_complete_def Let_def)
  qed
qed

lemma authComplete_reject_cases:
  obtains (fail) e where "authComplete_reject i err s = (Inl e, s)"
      and "map_of (authRequests s) i = None \<or>
           (\<exists>r. map_of (authRequests s) i = Some r \<and> stripUrl (ar_url r) = Inl e)"
    | (ok) r k s1 where "map_of (authRequests s) i = Some r" and "stripUrl (ar_url r) = Inr k"
      and "authComplete_reject i err s = (Inr (), s1)"
      and "authUrls s1 = AList.update (prop_key k)
             \<lparr>au_authorizedAccounts = [], au_authorizedDids = Some [], au_count = 0,
              au_id = ar_idStr r, au_isAllowed = None, au_origin = ar_request_origin r,
              au_url = ar_url r\<rparr> (authUrls s)"
      and "authRequests s1 = AList.delete i (authRequests s)"
      and "metaRequests s1 = metaRequests s" and "signRequests s1 = signRequests s"
      and "didSignRequests s1 = didSignRequests s" and "idCounter s1 = idCounter s"
      and "settled s1 = settled s @ [(i, RejectedWith err)]"
      and "defaultAuthAccountSelection s1 = []" and "storedDefaultAuthAccounts s1 = Some []"
      and "storedAuthUrls s1 = Some (authUrls s1)"
proof (cases rule: authComplete_complete_cases[of i "[]" "[]" s])
  case (fail e)
  then show ?thesis using that(1)[of e] by (simp add: authComplete_reject_def)
next
  case (ok r k s1)
  then show ?thesis
    using that(2)[of r k "s1\<lparr>settled := settled s1 @ [(i, RejectedWith err)]\<rparr>"]
    by (simp add: authComplete_reject_def)
qed

lemma authorizeApprove_cases:
  obtains (fail) e where "authorizeApprove i a d s = (Inl e, s)"
      and "(map_of (authRequests s) i = None \<and> e = NotFound) \<or>
           (\<exists>r. map_of (authRequests s) i = Some r \<and> stripUrl (ar_url r) = Inl e)"
    | (ok) r k s1 where "map_of (authRequests s) i = Some r" and "stripUrl (ar_url r) = Inr k"
      and "authorizeApprove i a d s = (Inr True, s1)"
      and "authUrls s1 = AList.update (prop_key k)
             \<lparr>au_authorizedAccounts = a, au_authorizedDids = Some d, au_count = 0,
              au_id = ar_idStr r, au_isAllowed = None, au_origin = ar_request_origin r,
              au_url = ar_url r\<rparr> (authUrls s)"
      and "authRequests s1 = AList.delete i (authRequests s)"
      and "metaRequests s1 = metaRequests s" and "signRequests s1 = signRequests s"
      and "didSignRequests s1 = didSignRequests s" and "idCounter s1 = idCounter s"
      and "settled s1 = settled s @ [(i, ResolvedAuth \<lparr>res_result = True,
             res_authorizedAccounts = a, res_authorizedDids = d\<rparr>)]"
      and "defaultAuthAccountSelection s1 = a" and "storedDefaultAuthAccounts s1 = Some a"
      and "storedAuthUrls s1 = Some (authUrls s1)"
proof (cases rule: authComplete_complete_cases[of i a d s])
  case (fail e)
  then show ?thesis
    using that(1)[of e] that(1)[of NotFound]
    by (auto simp add: authorizeApprove_def authComplete_resolve_def getAuthRequest_def)
next
  case (ok r k s1)
  then show ?thesis
    using that(2)[of r k "s1\<lparr>settled := settled s1 @ [(i, ResolvedAuth \<lparr>res_result = True,
             res_authorizedAccounts = a, res_authorizedDids = d\<rparr>)]\<rparr>"]
    by (simp add: authorizeApprove_def authComplete_resolve_def getAuthRequest_def)
qed

lemma refreshAccountPasswordCache_frame [simp]:
  "authUrls (snd (refreshAccountPasswordCache now a s)) = authUrls s"
  "authRequests (snd (refreshAccountPasswordCache now a s)) = authRequests s"
  "metaRequests (snd (refreshAccountPasswordCache now a s)) = metaRequests s"
  "signRequests (snd (refreshAccountPasswordCache now a s)) = signRequests s"
  "didSignRequests (snd (refreshAccountPasswordCache now a s)) = didSignRequests s"
  "idCounter (snd (refreshAccountPasswordCache now a s)) = idCounter s"
  "settled (snd (refreshAccountPasswordCache now a s)) = settled s"
  by (simp_all add: refreshAccountPasswordCache_def Let_def)

lemma pair_decodePkcs8_frame [simp]:
  "authUrls (snd (pair_decodePkcs8 a p s)) = authUrls s"
  "authRequests (snd (pair_decodePkcs8 a p s)) = authRequests s"
  "metaRequests (snd (pair_decodePkcs8 a p s)) = metaRequests s"
  "signRequests (snd (pair_decodePkcs8 a p s)) = signRequests s"
  "didSignRequests (snd (pair_decodePkcs8 a p s)) = didSignRequests s"
  "idCounter (snd (pair_decodePkcs8 a p s)) = idCounter s"
  "settled (snd (pair_decodePkcs8 a p s)) = settled s"
  by (simp_all add: pair_decodePkcs8_def split: option.splits)

lemma metadataApprove_tables [simp]:
  "authUrls (snd (metadataApprove i s)) = authUrls s"
  "authRequests (snd (metadataApprove i s)) = authRequests s"
  "metaRequests (snd (metadataApprove i s)) = AList.delete i (metaRequests s)"
  "signRequests (snd (metadataApprove i s)) = signRequests s"
  "didSignRequests (snd (metadataApprove i s)) = didSignRequests s"
  "idCounter (snd (metadataApprove i s)) = idCounter s"
  by (auto simp add: metadataApprove_def getMetaRequest_def map_of_eq_None_iff
      split: option.splits)

lemma metadataReject_tables [simp]:
  "authUrls (snd (metadataReject i s)) = authUrls s"
  "authRequests (snd (metadataReject i s)) = authRequests s"
  "metaRequests (snd (metadataReject i s)) = AList.delete i (metaRequests s)"
  "signRequests (snd (metadataReject i s)) = signRequests s"
  "didSignRequests (snd (metadataReject i s)) = didSignRequests s"
  "idCounter (snd (metadataReject i s)) = idCounter s"
  by (auto simp add: metadataReject_def getMetaRequest_def map_of_eq_None_iff
      split: option.splits)

lemma signingApproveSignature_tables [simp]:
  "authUrls (snd (signingApproveSignature i sig s)) = authUrls s"
  "authRequests (snd (signingApproveSignature i sig s)) = authRequests s"
  "metaRequests (snd (signingApproveSignature i sig s)) = metaRequests s"
  "signRequests (snd (signingApproveSignature i sig s)) = AList.delete i (signRequests s)"
  "didSignRequests (snd (signingApproveSignature i sig s)) = didSignRequests s"
  "idCounter (snd (signingApproveSignature i sig s)) = idCounter s"
  by (auto simp add: signingApproveSignature_def getSignRequest_def map_of_eq_None_iff
      split: option.splits)

lemma signingCancel_tables [simp]:
  "authUrls (snd (signingCancel i s)) = authUrls s"
  "authRequests (snd (signingCancel i s)) = authRequests s"
  "metaRequests (snd (signingCancel i s)) = metaRequests s"
  "signRequests (snd (signingCancel i s)) = AList.delete i (signRequests s)"
  "didSignRequests (snd (signingCancel i s)) = didSignRequests s"
  "idCounter (snd (signingCancel i s)) = idCounter s"
  by (auto simp add: signingCancel_def getSignRequest_def map_of_eq_None_iff
      split: option.splits)

lemma didsSignCancel_tables [simp]:
  "authUrls (snd (didsSignCancel i s)) = authUrls s"
  "authRequests (snd (didsSignCancel i s)) = authRequests s"
  "metaRequests (snd (didsSignCancel i s)) = metaRequests s"
  "signRequests (snd (didsSignCancel i s)) = signRequests s"
  "didSignRequests (snd (didsSignCancel i s)) = AList.delete i (didSignRequests s)"
  "idCounter (snd (didsSignCancel i s)) = idCounter s"
  by (auto simp add: didsSignCancel_def getDidSignRequest_def map_of_eq_None_iff
      split: option.splits)

lemma didsSignApprove_tables [simp]:
  "authUrls (snd (didsSignApprove i p s)) = authUrls s"
  "authRequests (snd (didsSignApprove i p s)) = authRequests s"
  "metaRequests (snd (didsSignApprove i p s)) = metaRequests s"
  "signRequests (snd (didsSignApprove i p s)) = signRequests s"
  "idCounter (snd (didsSignApprove i p s)) = idCounter s"
  by (auto simp add: didsSignApprove_def getDidSignRequest_def Let_def
      split: option.splits)

lemma didsSignApprove_table:
  "didSignRequests (snd (didsSignApprove i p s)) =
     (if settled (snd (didsSignApprove i p s)) = settled s then didSignRequests s
      else AList.delete i (didSignRequests s))"
  by (auto simp add: didsSignApprove_def getDidSignRequest_def Let_def
      split: option.splits)

lemma signingApprovePassword_tables [simp]:
  "authUrls (snd (signingApprovePassword now ex i p sv s)) = authUrls s"
  "authRequests (snd (signingApprovePassword now ex i p sv s)) = authRequests s"
  "metaRequests (snd (signingApprovePassword now ex i p sv s)) = metaRequests s"
  "didSignRequests (snd (signingApprovePassword now ex i p sv s)) = didSignRequests s"
  "idCounter (snd (signingApprovePassword now ex i p sv s)) = idCounter s"
  "signRequests (snd (signingApprovePassword now ex i p sv s)) =
     (if settled (snd (signingApprovePassword now ex i p sv s)) = settled s then signRequests s
      else AList.delete i (signRequests s))"
proof -
  let ?r = "signingApprovePassword now ex i p sv s"
  have "authUrls (snd ?r) = authUrls s \<and> authRequests (snd ?r) = authRequests s
      \<and> metaRequests (snd ?r) = metaRequests s \<and> didSignRequests (snd ?r) = didSignRequests s
      \<and> idCounter (snd ?r) = idCounter s
      \<and> signRequests (snd ?r) =
         (if settled (snd ?r) = settled s then signRequests s else AList.delete i (signRequests s))"
  proof (cases "map_of (signRequests s) i")
    case None
    then show ?thesis by (simp add: signingApprovePassword_def getSignRequest_def)
  next
    case (Some q)
    show ?thesis
    proof (cases "map_of (keyringPairs s) (sr_account_address q)")
      case None
      with Some show ?thesis
        by (simp add: signingApprovePassword_def getSignRequest_def Let_def)
    next
      case (Some pair)
      define a where "a = sr_account_address q"
      define s1 where "s1 = snd (refreshAccountPasswordCache now a s)"
      define s2 where "s2 = (if pair_isLocked a s1 \<and> p = []
                             then signComplete_reject i PasswordNeeded s1 else s1)"
      define d where "d = (if pair_isLocked a s2 then pair_decodePkcs8 a p s2 else (Inr (), s2))"
      have s3: "snd d = (if pair_isLocked a s2 then snd (pair_decodePkcs8 a p s2) else s2)"
        by (simp add: d_def)
      have r: "?r = (case d of (Inl e, s3) \<Rightarrow> (Inl e, s3)
                    | (Inr u, s3) \<Rightarrow>
                        (Inr True, signComplete_resolve i (i, request_sign (sr_request q) a)
                           (if sv then s3\<lparr>cachedUnlocks := AList.update a (now + ex) (cachedUnlocks s3)\<rparr>
                            else pair_lock a s3)))"
        using \<open>map_of (signRequests s) i = Some q\<close> Some
        unfolding signingApprovePassword_def getSignRequest_def Let_def a_def s1_def s2_def d_def
        by simp
      have f1: "authUrls s1 = authUrls s" "authRequests s1 = authRequests s"
        "metaRequests s1 = metaRequests s" "didSignRequests s1 = didSignRequests s"
        "idCounter s1 = idCounter s" "signRequests s1 = signRequests s" "settled s1 = settled s"
        by (simp_all add: s1_def)
      have f2: "authUrls s2 = authUrls s" "authRequests s2 = authRequests s"
        "metaRequests s2 = metaRequests s" "didSignRequests s2 = didSignRequests s"
        "idCounter s2 = idCounter s"
        "signRequests s2 = signRequests s \<and> settled s2 = settled s \<or>
         signRequests s2 = AList.delete i (signRequests s) \<and>
           settled s2 = settled s @ [(i, RejectedWith PasswordNeeded)]"
        by (simp_all add: s2_def f1)
      have f3: "authUrls (snd d) = authUrls s" "authRequests (snd d) = authRequests s"
        "metaRequests (snd d) = metaRequests s" "didSignRequests (snd d) = didSignRequests s"
        "idCounter (snd d) = idCounter s"
        "signRequests (snd d) = signRequests s2" "settled (snd d) = settled s2"
        by (simp_all add: s3 f2)
      show ?thesis
      proof (cases d)
        case (Pair res s3')
        then have s3': "s3' = snd d" by simp
        show ?thesis
        proof (cases res)
          case (Inl e)
          with Pair r have "?r = (Inl e, snd d)" by simp
          then show ?thesis using f3 f2 by auto
        next
          case (Inr u)
          with Pair r have "snd ?r = signComplete_resolve i (i, request_sign (sr_request q) a)
                           (if sv then (snd d)\<lparr>cachedUnlocks := AList.update a (now + ex) (cachedUnlocks (snd d))\<rparr>
                            else pair_lock a (snd d))" by simp
          then show ?thesis using f3 f2 by (auto simp add: AList.delete_idem)
        qed
      qed
    qed
  qed
  then show
    "authUrls (snd (signingApprovePassword now ex i p sv s)) = authUrls s"
    "authRequests (snd (signingApprovePassword now ex i p sv s)) = authRequests s"
    "metaRequests (snd (signingApprovePassword now ex i p sv s)) = metaRequests s"
    "didSignRequests (snd (signingApprovePassword now ex i p sv s)) = didSignRequests s"
    "idCounter (snd (signingApprovePassword now ex i p sv s)) = idCounter s"
    "signRequests (snd (signingApprovePassword now ex i p sv s)) =
     (if settled (snd (signingApprovePassword now ex i p sv s)) = settled s then signRequests s
      else AList.delete i (signRequests s))"
    by simp_all
qed

lemma signingIsLocked_tables [simp]:
  "authUrls (snd (signingIsLocked now i s)) = authUrls s"
  "authRequests (snd (signingIsLocked now i s)) = authRequests s"
  "metaRequests (snd (signingIsLocked now i s)) = metaRequests s"
  "signRequests (snd (signingIsLocked now i s)) = signRequests s"
  "didSignRequests (snd (signingIsLocked now i s)) = didSignRequests s"
  "idCounter (snd (signingIsLocked now i s)) = idCounter s"
  "settled (snd (signingIsLocked now i s)) = settled s"
proof -
  have "snd (signingIsLocked now i s) = s \<or> (\<exists>a. snd (signingIsLocked now i s)
          = snd (refreshAccountPasswordCache now a s))"
    by (auto simp add: signingIsLocked_def Let_def split: option.splits)
  then show "authUrls (snd (signingIsLocked now i s)) = authUrls s"
    "authRequests (snd (signingIsLocked now i s)) = authRequests s"
    "metaRequests (snd (signingIsLocked now i s)) = metaRequests s"
    "signRequests (snd (signingIsLocked now i s)) = signRequests s"
    "didSignRequests (snd (signingIsLocked now i s)) = didSignRequests s"
    "idCounter (snd (signingIsLocked now i s)) = idCounter s"
    "settled (snd (signingIsLocked now i s)) = settled s"
    by auto
qed

section \<open>The invariants hold in every reachable state\<close>

lemma disjoint_subsets:
  "A' \<subseteq> A \<Longrightarrow> B' \<subseteq> B \<Longrightarrow> A \<inter> B = {} \<Longrightarrow> A' \<inter> B' = {}"
  by blast

lemma disjoint_with_fresh:
  assumes "A' \<subseteq> A \<union> X" "B' \<subseteq> B \<union> Y" "A \<inter> B = {}" "X \<inter> Y = {}"
    and "X \<subseteq> {x}" "Y \<subseteq> {x}" "x \<notin> A" "x \<notin> B"
  shows "A' \<inter> B' = {}"
  using assms by blast

lemma issued_fresh:
  assumes "\<forall>i \<in> U. i \<le> n"
  shows "Suc n \<notin> (U :: nat set)"
proof
  assume "Suc n \<in> U"
  with assms have "Suc n \<le> n" by blast
  then show False by simp
qed

lemma issued_extend:
  assumes "\<forall>i \<in> U. i \<le> n" "U' \<subseteq> U \<union> N" "N \<subseteq> {Suc n}"
  shows "\<forall>i \<in> U'. i \<le> Suc n"
proof
  fix i assume "i \<in> U'"
  with assms(2) have "i \<in> U \<or> i \<in> N" by blast
  then show "i \<le> Suc n"
  proof
    assume "i \<in> U" with assms(1) have "i \<le> n" by blast
    then show ?thesis by simp
  next
    assume "i \<in> N" with assms(3) have "i = Suc n" by blast
    then show ?thesis by simp
  qed
qed

lemma pending_ids_shrink:
  assumes inv: "pending_ids_disjoint s \<and> pending_ids_issued s"
    and cnt: "idCounter s' = idCounter s"
    and a: "fst ` set (authRequests s') \<subseteq> fst ` set (authRequests s)"
    and m: "fst ` set (metaRequests s') \<subseteq> fst ` set (metaRequests s)"
    and g: "fst ` set (signRequests s') \<subseteq> fst ` set (signRequests s)"
    and d: "fst ` set (didSignRequests s') \<subseteq> fst ` set (didSignRequests s)"
  shows "pending_ids_disjoint s' \<and> pending_ids_issued s'"
proof -
  have dis0: "fst ` set (authRequests s) \<inter> fst ` set (metaRequests s) = {}"
    "fst ` set (authRequests s) \<inter> fst ` set (signRequests s) = {}"
    "fst ` set (authRequests s) \<inter> fst ` set (didSignRequests s) = {}"
    "fst ` set (metaRequests s) \<inter> fst ` set (signRequests s) = {}"
    "fst ` set (metaRequests s) \<inter> fst ` set (didSignRequests s) = {}"
    "fst ` set (signRequests s) \<inter> fst ` set (didSignRequests s) = {}"
    using inv unfolding pending_ids_disjoint_def Let_def by simp_all
  have dis1: "pending_ids_disjoint s'"
    unfolding pending_ids_disjoint_def Let_def
    using disjoint_subsets[OF a m dis0(1)] disjoint_subsets[OF a g dis0(2)]
      disjoint_subsets[OF a d dis0(3)] disjoint_subsets[OF m g dis0(4)]
      disjoint_subsets[OF m d dis0(5)] disjoint_subsets[OF g d dis0(6)]
    by simp
  have old: "\<forall>i \<in> fst ` set (authRequests s) \<union> fst ` set (metaRequests s)
            \<union> fst ` set (signRequests s) \<union> fst ` set (didSignRequests s). i \<le> idCounter s"
    using inv unfolding pending_ids_issued_def by simp
  have "fst ` set (authRequests s') \<union> fst ` set (metaRequests s')
            \<union> fst ` set (signRequests s') \<union> fst ` set (didSignRequests s')
        \<subseteq> fst ` set (authRequests s) \<union> fst ` set (metaRequests s)
            \<union> fst ` set (signRequests s) \<union> fst ` set (didSignRequests s)"
    using a m g d by (meson Un_mono)
  with old have "pending_ids_issued s'"
    unfolding pending_ids_issued_def cnt by (meson subsetD)
  with dis1 show ?thesis by simp
qed

lemma pending_ids_enqueue:
  assumes inv: "pending_ids_disjoint s \<and> pending_ids_issued s"
    and cnt: "idCounter s' = Suc (idCounter s)"
    and a: "fst ` set (authRequests s') \<subseteq> fst ` set (authRequests s) \<union> A"
    and m: "fst ` set (metaRequests s') \<subseteq> fst ` set (metaRequests s) \<union> M"
    and g: "fst ` set (signRequests s') \<subseteq> fst ` set (signRequests s) \<union> G"
    and d: "fst ` set (didSignRequests s') \<subseteq> fst ` set (didSignRequests s) \<union> D"
    and new: "A \<subseteq> {Suc (idCounter s)}" "M \<subseteq> {Suc (idCounter s)}"
      "G \<subseteq> {Suc (idCounter s)}" "D \<subseteq> {Suc (idCounter s)}"
    and one: "A \<inter> M = {}" "A \<inter> G = {}" "A \<inter> D = {}" "M \<inter> G = {}" "M \<inter> D = {}" "G \<inter> D = {}"
  shows "pending_ids_disjoint s' \<and> pending_ids_issued s'"
proof -
  let ?U = "fst ` set (authRequests s) \<union> fst ` set (metaRequests s)
            \<union> fst ` set (signRequests s) \<union> fst ` set (didSignRequests s)"
  let ?U' = "fst ` set (authRequests s') \<union> fst ` set (metaRequests s')
            \<union> fst ` set (signRequests s') \<union> fst ` set (didSignRequests s')"
  have old: "\<forall>i \<in> ?U. i \<le> idCounter s"
    using inv unfolding pending_ids_issued_def by simp
  have dis0: "fst ` set (authRequests s) \<inter> fst ` set (metaRequests s) = {}"
    "fst ` set (authRequests s) \<inter> fst ` set (signRequests s) = {}"
    "fst ` set (authRequests s) \<inter> fst ` set (didSignRequests s) = {}"
    "fst ` set (metaRequests s) \<inter> fst ` set (signRequests s) = {}"
    "fst ` set (metaRequests s) \<inter> fst ` set (didSignRequests s) = {}"
    "fst ` set (signRequests s) \<inter> fst ` set (didSignRequests s) = {}"
    using inv unfolding pending_ids_disjoint_def Let_def by simp_all
  have "Suc (idCounter s) \<notin> ?U" by (rule issued_fresh[OF old])
  then have fresh: "Suc (idCounter s) \<notin> fst ` set (authRequests s)"
    "Suc (idCounter s) \<notin> fst ` set (metaRequests s)"
    "Suc (idCounter s) \<notin> fst ` set (signRequests s)"
    "Suc (idCounter s) \<notin> fst ` set (didSignRequests s)"
    by simp_all
  have dis1: "pending_ids_disjoint s'"
    unfolding pending_ids_disjoint_def Let_def
    using disjoint_with_fresh[OF a m dis0(1) one(1) new(1) new(2) fresh(1) fresh(2)]
      disjoint_with_fresh[OF a g dis0(2) one(2) new(1) new(3) fresh(1) fresh(3)]
      disjoint_with_fresh[OF a d dis0(3) one(3) new(1) new(4) fresh(1) fresh(4)]
      disjoint_with_fresh[OF m g dis0(4) one(4) new(2) new(3) fresh(2) fresh(3)]
      disjoint_with_fresh[OF m d dis0(5) one(5) new(2) new(4) fresh(2) fresh(4)]
      disjoint_with_fresh[OF g d dis0(6) one(6) new(3) new(4) fresh(3) fresh(4)]
    by (intro conjI)
  have sub: "?U' \<subseteq> ?U \<union> (A \<union> M \<union> G \<union> D)"
  proof
    fix x assume "x \<in> ?U'"
    then consider "x \<in> fst ` set (authRequests s')" | "x \<in> fst ` set (metaRequests s')"
      | "x \<in> fst ` set (signRequests s')" | "x \<in> fst ` set (didSignRequests s')"
      by (elim UnE)
    then show "x \<in> ?U \<union> (A \<union> M \<union> G \<union> D)"
    proof cases
      case 1 from a this have "x \<in> fst ` set (authRequests s) \<union> A" by (rule subsetD)
      then show ?thesis by (elim UnE) simp_all
    next
      case 2 from m this have "x \<in> fst ` set (metaRequests s) \<union> M" by (rule subsetD)
      then show ?thesis by (elim UnE) simp_all
    next
      case 3 from g this have "x \<in> fst ` set (signRequests s) \<union> G" by (rule subsetD)
      then show ?thesis by (elim UnE) simp_all
    next
      case 4 from d this have "x \<in> fst ` set (didSignRequests s) \<union> D" by (rule subsetD)
      then show ?thesis by (elim UnE) simp_all
    qed
  qed
  have newU: "A \<union> M \<union> G \<union> D \<subseteq> {Suc (idCounter s)}"
    using new by (intro Un_least)
  have iss1: "pending_ids_issued s'"
    unfolding pending_ids_issued_def cnt
    by (rule issued_extend[OF old sub newU])
  from dis1 iss1 show ?thesis by (rule conjI)
qed

lemma resolve_command_tables:
  "authUrls (snd (resolve_command c i s)) = authUrls s \<or> (\<exists>a d. c = AuthorizeApprove a d)"
  "idCounter (snd (resolve_command c i s)) = idCounter s"
  "fst ` set (authRequests (snd (resolve_command c i s))) \<subseteq> fst ` set (authRequests s)"
  "fst ` set (metaRequests (snd (resolve_command c i s))) \<subseteq> fst ` set (metaRequests s)"
  "fst ` set (signRequests (snd (resolve_command c i s))) \<subseteq> fst ` set (signRequests s)"
  "fst ` set (didSignRequests (snd (resolve_command c i s))) \<subseteq> fst ` set (didSignRequests s)"
proof -
  have "(authUrls (snd (resolve_command c i s)) = authUrls s \<or> (\<exists>a d. c = AuthorizeApprove a d))
    \<and> idCounter (snd (resolve_command c i s)) = idCounter s
    \<and> fst ` set (authRequests (snd (resolve_command c i s))) \<subseteq> fst ` set (authRequests s)
    \<and> fst ` set (metaRequests (snd (resolve_command c i s))) \<subseteq> fst ` set (metaRequests s)
    \<and> fst ` set (signRequests (snd (resolve_command c i s))) \<subseteq> fst ` set (signRequests s)
    \<and> fst ` set (didSignRequests (snd (resolve_command c i s))) \<subseteq> fst ` set (didSignRequests s)"
  proof (cases c)
    case (AuthorizeApprove a d)
    show ?thesis
    proof (cases rule: authorizeApprove_cases[of i a d s])
      case (fail e)
      with AuthorizeApprove show ?thesis by simp
    next
      case (ok r k s1)
      with AuthorizeApprove show ?thesis by (simp add: AList.dom_delete_subset)
    qed
  next
    case (DidsSignApprove p)
    then show ?thesis by (simp add: didsSignApprove_table AList.dom_delete_subset)
  qed (simp_all add: AList.dom_delete_subset)
  then show
    "authUrls (snd (resolve_command c i s)) = authUrls s \<or> (\<exists>a d. c = AuthorizeApprove a d)"
    "idCounter (snd (resolve_command c i s)) = idCounter s"
    "fst ` set (authRequests (snd (resolve_command c i s))) \<subseteq> fst ` set (authRequests s)"
    "fst ` set (metaRequests (snd (resolve_command c i s))) \<subseteq> fst ` set (metaRequests s)"
    "fst ` set (signRequests (snd (resolve_command c i s))) \<subseteq> fst ` set (signRequests s)"
    "fst ` set (didSignRequests (snd (resolve_command c i s))) \<subseteq> fst ` set (didSignRequests s)"
    by simp_all
qed

lemma exec_pending_ids:
  assumes "pending_ids_disjoint s \<and> pending_ids_issued s"
  shows "pending_ids_disjoint (exec c s) \<and> pending_ids_issued (exec c s)"
proof (cases c)
  case (RequestAuthorize url req)
  show ?thesis
  proof (cases "\<exists>i. fst (authorizeUrl url req s) = Inr (Pending i)")
    case True
    then obtain i where "fst (authorizeUrl url req s) = Inr (Pending i)" by blast
    from authorizeUrl_enqueued[OF this] obtain idStr where
      e: "idCounter (snd (authorizeUrl url req s)) = Suc (idCounter s)"
        "authRequests (snd (authorizeUrl url req s)) =
           AList.update (Suc (idCounter s))
             \<lparr>ar_id = Suc (idCounter s), ar_idStr = idStr, ar_request_origin = req, ar_url = url\<rparr>
             (authRequests s)"
      by auto
    from RequestAuthorize e show ?thesis
      by (intro pending_ids_enqueue[OF assms, where A = "{Suc (idCounter s)}" and M = "{}"
            and G = "{}" and D = "{}"]) (simp_all add: AList.dom_update)
  next
    case False
    then have "snd (authorizeUrl url req s) = s" by (intro authorizeUrl_not_enqueued) simp
    with RequestAuthorize assms show ?thesis by simp
  qed
next
  case (RequestMetadata url req)
  then show ?thesis
    by (intro pending_ids_enqueue[OF assms, where A = "{}" and M = "{Suc (idCounter s)}"
            and G = "{}" and D = "{}"]) (simp_all add: AList.dom_update)
next
  case (RequestSign url req a)
  then show ?thesis
    by (intro pending_ids_enqueue[OF assms, where A = "{}" and G = "{Suc (idCounter s)}"
            and M = "{}" and D = "{}"]) (simp_all add: AList.dom_update)
next
  case (RequestDidSign url req d n)
  then show ?thesis
    by (intro pending_ids_enqueue[OF assms, where A = "{}" and D = "{Suc (idCounter s)}"
            and G = "{}" and M = "{}"]) (simp_all add: AList.dom_update)
next
  case (Resolve r i)
  then show ?thesis
    by (intro pending_ids_shrink[OF assms]) (simp_all add: resolve_command_tables)
next
  case (AuthorizeRejected i err)
  show ?thesis
  proof (cases rule: authComplete_reject_cases[of i err s])
    case (fail e)
    with AuthorizeRejected assms show ?thesis by simp
  next
    case (ok r k s1)
    with AuthorizeRejected show ?thesis
      by (intro pending_ids_shrink[OF assms]) (simp_all add: AList.dom_delete_subset)
  qed
next
  case (AuthorizeDeleteRequest i)
  then show ?thesis
    by (intro pending_ids_shrink[OF assms]) (simp_all add: AList.dom_delete_subset)
next
  case (AuthorizeRemove url)
  then show ?thesis by (intro pending_ids_shrink[OF assms]) simp_all
next
  case (AuthorizeUpdate url a d)
  then show ?thesis by (intro pending_ids_shrink[OF assms]) (simp_all add: authorizeUpdate_def)
next
  case (AccountsForget a)
  then show ?thesis by (intro pending_ids_shrink[OF assms]) simp_all
next
  case (SigningIsLocked now i)
  then show ?thesis by (intro pending_ids_shrink[OF assms]) simp_all
next
  case (SettingsNotification n)
  then show ?thesis by (intro pending_ids_shrink[OF assms]) (simp_all add: setNotification_def)
next
  case (KeyringChanged p)
  then show ?thesis by (intro pending_ids_shrink[OF assms]) simp_all
next
  case (DidsStoreChanged d)
  then show ?thesis by (intro pending_ids_shrink[OF assms]) simp_all
qed

lemma reachable_pending_ids:
  "reachable s \<Longrightarrow> pending_ids_disjoint s \<and> pending_ids_issued s"
proof (induction rule: reachable.induct)
  case (start storedAuth knownEntries storedMeta storedDefault notif dids pairs)
  show ?case by (simp add: pending_ids_disjoint_def pending_ids_issued_def)
next
  case (step s c)
  then show ?case by (intro exec_pending_ids) simp
qed

section \<open>Duplicate authorize requests\<close>

text \<open>
  C5. When a pending authorize request for the normalized origin of a url exists, a call
  of \<open>authorizeUrl\<close> for any url with that origin fails with \<open>DuplicateRequest\<close> and
  leaves the state as it was: nothing is enqueued and the pending request stays.
  The check comes before the look at the store, so this holds whether or not the origin
  has an entry.
\<close>

theorem authorizeUrl_duplicate_request:
  assumes "stripUrl url = Inr idStr"
    and "(i, r) \<in> set (authRequests s)"
    and "ar_idStr r = idStr"
  shows "authorizeUrl url request_origin s = (Inl DuplicateRequest, s)"
proof -
  have "r \<in> set (map snd (authRequests s))"
    using assms(2) by force
  with assms(3) have "list_ex (\<lambda>request. ar_idStr request = idStr) (map snd (authRequests s))"
    unfolding list_ex_iff by blast
  with assms(1) show ?thesis
    by (simp add: authorizeUrl_def)
qed

section \<open>updateAuthorizedAccounts on an origin without entry\<close>







section \<open>The two theorems above on the example states\<close>

theorem authorizeUrl_duplicate_request_witness:
  "authorizeUrl ''https://a.com/other/page'' ''app2'' example_authorize_pending
     = (Inl DuplicateRequest, example_authorize_pending)"
proof -
  have h1: "stripUrl ''https://a.com/other/page'' = Inr (Some ''a.com'')"
    by code_simp
  have h2: "(1, \<lparr>ar_id = 1, ar_idStr = Some ''a.com'', ar_request_origin = ''app'',
                  ar_url = ''https://a.com/x''\<rparr>) \<in> set (authRequests example_authorize_pending)"
    by code_simp
  show ?thesis
    using authorizeUrl_duplicate_request[OF h1 h2] by simp
qed


section \<open>The authorize flow keeps its invariant\<close>

lemma update_fresh_key:
  "k \<notin> fst ` set al \<Longrightarrow> AList.update k v al = al @ [(k, v)]"
  by (induction al) auto

lemma distinct_map_delete:
  "distinct (map f al) \<Longrightarrow> distinct (map f (AList.delete k al))"
  by (simp add: AList.delete_eq distinct_map_filter)

lemma set_delete_subset: "set (AList.delete k al) \<subseteq> set al"
  by (auto simp add: AList.delete_eq)

lemma set_delete_key: "p \<in> set (AList.delete k al) \<Longrightarrow> fst p \<noteq> k"
  by (auto simp add: AList.delete_eq)

lemma auth_consistent_same:
  assumes "auth_consistent s" and "authUrls s' = authUrls s" and "authRequests s' = authRequests s"
  shows "auth_consistent s'"
  using assms by (simp add: auth_consistent_def)

lemma auth_consistent_fewer:
  assumes inv: "auth_consistent s"
    and keys: "fst ` set (authUrls s') \<subseteq> fst ` set (authUrls s)"
    and dist: "distinct (map fst (authUrls s'))"
    and reqs: "authRequests s' = authRequests s \<or> (\<exists>i. authRequests s' = AList.delete i (authRequests s))"
  shows "auth_consistent s'"
proof -
  have d: "distinct (map (\<lambda>p. ar_idStr (snd p)) (authRequests s'))"
    using inv reqs by (auto simp add: auth_consistent_def distinct_map_delete)
  have sub: "set (authRequests s') \<subseteq> set (authRequests s)"
    using reqs set_delete_subset by fastforce
  have "\<forall>p \<in> set (authRequests s').
        ar_idStr (snd p) \<noteq> None \<and> stripUrl (ar_url (snd p)) = Inr (ar_idStr (snd p))
        \<and> prop_key (ar_idStr (snd p)) \<notin> fst ` set (authUrls s')"
  proof
    fix p assume "p \<in> set (authRequests s')"
    with sub have "p \<in> set (authRequests s)" by (rule subsetD)
    with inv have "ar_idStr (snd p) \<noteq> None \<and> stripUrl (ar_url (snd p)) = Inr (ar_idStr (snd p))
        \<and> prop_key (ar_idStr (snd p)) \<notin> fst ` set (authUrls s)"
      unfolding auth_consistent_def by blast
    with keys show "ar_idStr (snd p) \<noteq> None \<and> stripUrl (ar_url (snd p)) = Inr (ar_idStr (snd p))
        \<and> prop_key (ar_idStr (snd p)) \<notin> fst ` set (authUrls s')"
      by blast
  qed
  with d dist show ?thesis unfolding auth_consistent_def by simp
qed

lemma auth_consistent_enqueue:
  assumes inv: "auth_consistent s"
    and fresh: "i \<notin> fst ` set (authRequests s)"
    and url: "stripUrl url = Inr idStr" and some: "idStr \<noteq> None"
    and nodup: "\<not> list_ex (\<lambda>request. ar_idStr request = idStr) (map snd (authRequests s))"
    and noentry: "map_of (authUrls s) (prop_key idStr) = None"
    and urls: "authUrls s' = authUrls s"
    and reqs: "authRequests s' = AList.update i
                 \<lparr>ar_id = i, ar_idStr = idStr, ar_request_origin = req, ar_url = url\<rparr>
                 (authRequests s)"
  shows "auth_consistent s'"
proof -
  let ?new = "\<lparr>ar_id = i, ar_idStr = idStr, ar_request_origin = req, ar_url = url\<rparr>"
  have app: "authRequests s' = authRequests s @ [(i, ?new)]"
    using reqs fresh by (simp add: update_fresh_key)
  have "idStr \<notin> set (map (\<lambda>p. ar_idStr (snd p)) (authRequests s))"
    using nodup by (auto simp add: list_ex_iff)
  then have d: "distinct (map (\<lambda>p. ar_idStr (snd p)) (authRequests s'))"
    using inv by (simp add: app auth_consistent_def)
  have k: "prop_key idStr \<notin> fst ` set (authUrls s)"
    using noentry by (simp add: map_of_eq_None_iff)
  have "\<forall>p \<in> set (authRequests s').
        ar_idStr (snd p) \<noteq> None \<and> stripUrl (ar_url (snd p)) = Inr (ar_idStr (snd p))
        \<and> prop_key (ar_idStr (snd p)) \<notin> fst ` set (authUrls s')"
    using inv url some k by (auto simp add: app urls auth_consistent_def)
  with d inv urls show ?thesis unfolding auth_consistent_def by simp
qed

lemma prop_key_Some_inj:
  "a \<noteq> None \<Longrightarrow> b \<noteq> None \<Longrightarrow> prop_key a = prop_key b \<Longrightarrow> a = b"
  by (auto simp add: prop_key_def)

lemma auth_consistent_complete:
  assumes inv: "auth_consistent s"
    and r: "map_of (authRequests s) i = Some r" and k: "stripUrl (ar_url r) = Inr k"
    and urls: "authUrls s' = AList.update (prop_key k) e (authUrls s)"
    and reqs: "authRequests s' = AList.delete i (authRequests s)"
  shows "auth_consistent s'"
proof -
  have mem: "(i, r) \<in> set (authRequests s)" using r by (rule map_of_SomeD)
  with inv have rk: "ar_idStr r \<noteq> None" "stripUrl (ar_url r) = Inr (ar_idStr r)"
    unfolding auth_consistent_def by force+
  with k have k_eq: "k = ar_idStr r" by simp
  have inj: "inj_on (\<lambda>p. ar_idStr (snd p)) (set (authRequests s))"
    using inv unfolding auth_consistent_def by (simp add: distinct_map)
  have d1: "distinct (map fst (authUrls s'))"
    using inv by (simp add: urls auth_consistent_def AList.distinct_update)
  have d2: "distinct (map (\<lambda>p. ar_idStr (snd p)) (authRequests s'))"
    using inv by (simp add: reqs auth_consistent_def distinct_map_delete)
  have "\<forall>p \<in> set (authRequests s').
        ar_idStr (snd p) \<noteq> None \<and> stripUrl (ar_url (snd p)) = Inr (ar_idStr (snd p))
        \<and> prop_key (ar_idStr (snd p)) \<notin> fst ` set (authUrls s')"
  proof
    fix p assume p: "p \<in> set (authRequests s')"
    then have p0: "p \<in> set (authRequests s)" and ne: "fst p \<noteq> i"
      using set_delete_subset set_delete_key unfolding reqs by fast+
    from inv p0 have old: "ar_idStr (snd p) \<noteq> None"
      "stripUrl (ar_url (snd p)) = Inr (ar_idStr (snd p))"
      "prop_key (ar_idStr (snd p)) \<notin> fst ` set (authUrls s)"
      unfolding auth_consistent_def by blast+
    from ne have "p \<noteq> (i, r)" by auto
    have "ar_idStr (snd p) \<noteq> ar_idStr r"
    proof
      assume "ar_idStr (snd p) = ar_idStr r"
      then have "(\<lambda>p. ar_idStr (snd p)) p = (\<lambda>p. ar_idStr (snd p)) (i, r)" by simp
      from inj_onD[OF inj this p0 mem] \<open>p \<noteq> (i, r)\<close> show False by simp
    qed
    with old(1) rk(1) have "prop_key (ar_idStr (snd p)) \<noteq> prop_key k"
      unfolding k_eq using prop_key_Some_inj by blast
    with old show "ar_idStr (snd p) \<noteq> None \<and> stripUrl (ar_url (snd p)) = Inr (ar_idStr (snd p))
        \<and> prop_key (ar_idStr (snd p)) \<notin> fst ` set (authUrls s')"
      by (simp add: urls AList.dom_update)
  qed
  with d1 d2 show ?thesis unfolding auth_consistent_def by simp
qed

lemma resolve_command_auth:
  assumes "auth_consistent s"
  shows "auth_consistent (snd (resolve_command c i s))"
proof (cases c)
  case (AuthorizeApprove a d)
  show ?thesis
  proof (cases rule: authorizeApprove_cases[of i a d s])
    case (fail e)
    with AuthorizeApprove assms show ?thesis by simp
  next
    case (ok r k s1)
    from auth_consistent_complete[OF assms ok(1) ok(2) ok(4) ok(5)] AuthorizeApprove ok(3)
    show ?thesis by simp
  qed
qed (simp_all add: auth_consistent_same[OF assms])

lemma exec_auth_consistent:
  assumes inv: "auth_consistent s" and ids: "pending_ids_issued s" and tab: "tab_url c"
  shows "auth_consistent (exec c s)"
proof (cases c)
  case (RequestAuthorize url req)
  show ?thesis
  proof (cases "\<exists>i. fst (authorizeUrl url req s) = Inr (Pending i)")
    case True
    then obtain i where "fst (authorizeUrl url req s) = Inr (Pending i)" by blast
    from authorizeUrl_enqueued[OF this] obtain idStr where
      e: "i = Suc (idCounter s)" "stripUrl url = Inr idStr"
        "\<not> list_ex (\<lambda>request. ar_idStr request = idStr) (map snd (authRequests s))"
        "map_of (authUrls s) (prop_key idStr) = None"
        "authRequests (snd (authorizeUrl url req s)) =
           AList.update i \<lparr>ar_id = i, ar_idStr = idStr, ar_request_origin = req, ar_url = url\<rparr>
             (authRequests s)"
      by auto
    have fresh: "i \<notin> fst ` set (authRequests s)"
    proof
      assume "i \<in> fst ` set (authRequests s)"
      with ids have "i \<le> idCounter s" unfolding pending_ids_issued_def by blast
      with e(1) show False by simp
    qed
    from tab RequestAuthorize e(2) have some: "idStr \<noteq> None" by auto
    have "authUrls (snd (authorizeUrl url req s)) = authUrls s" by simp
    from auth_consistent_enqueue[OF inv fresh e(2) some e(3) e(4) this e(5)] RequestAuthorize
    show ?thesis by simp
  next
    case False
    then have "snd (authorizeUrl url req s) = s" by (intro authorizeUrl_not_enqueued) simp
    with RequestAuthorize inv show ?thesis by simp
  qed
next
  case (Resolve r i)
  then show ?thesis using resolve_command_auth[OF inv] by simp
next
  case (AuthorizeRejected i err)
  show ?thesis
  proof (cases rule: authComplete_reject_cases[of i err s])
    case (fail e)
    with AuthorizeRejected inv show ?thesis by simp
  next
    case (ok r k s1)
    from auth_consistent_complete[OF inv ok(1) ok(2) ok(4) ok(5)] AuthorizeRejected ok(3)
    show ?thesis by simp
  qed
next
  case (AuthorizeDeleteRequest i)
  have "auth_consistent (deleteAuthRequest i s)"
    using inv by (intro auth_consistent_fewer[OF inv]) (auto simp add: auth_consistent_def)
  with AuthorizeDeleteRequest show ?thesis by simp
next
  case (AuthorizeRemove url)
  have "auth_consistent (snd (removeAuthorization url s))"
    using inv
    by (intro auth_consistent_fewer[OF inv])
      (simp_all add: auth_consistent_def removeAuthorization_authUrls
        AList.distinct_delete AList.dom_delete_subset)
  with AuthorizeRemove show ?thesis by simp
next
  case (AuthorizeUpdate url a d)
  have "auth_consistent (snd (updateAuthorizedAccounts [(url, a, d)] s))"
    using inv
    by (intro auth_consistent_fewer[OF inv])
      (simp_all add: auth_consistent_def updateAuthorizedAccounts_forEach_keys
        flip: set_map del: updateAuthorizedAccounts_forEach.simps)
  with AuthorizeUpdate show ?thesis by (simp add: authorizeUpdate_def)
next
  case (AccountsForget a)
  have "auth_consistent (snd (accountsForget a s))"
    using inv
    by (intro auth_consistent_fewer[OF inv])
      (simp_all add: auth_consistent_def updateAuthorizedAccounts_forEach_keys
        flip: set_map)
  with AccountsForget show ?thesis by simp
qed (simp_all add: auth_consistent_same[OF inv] setNotification_def)

text \<open>The three invariants together, for every reachable state.\<close>

lemma reachable_invariant:
  "reachable s \<Longrightarrow> auth_consistent s \<and> pending_ids_disjoint s \<and> pending_ids_issued s"
proof (induction rule: reachable.induct)
  case (start storedAuth knownEntries storedMeta storedDefault notif dids pairs)
  then show ?case
    by (simp add: auth_consistent_def pending_ids_disjoint_def pending_ids_issued_def)
next
  case (step s c)
  then show ?case
    using exec_auth_consistent[of s c] exec_pending_ids[of s c] by simp
qed

section \<open>An origin with an entry is not asked again\<close>

lemma authorizeUrl_short_circuit:
  assumes inv: "auth_consistent s"
    and url: "stripUrl url = Inr (Some origin)"
    and entry: "map_of (authUrls s) origin = Some entry"
  shows "authorizeUrl url request_origin s =
           (Inr (Returned \<lparr>res_result = False, res_authorizedAccounts = [],
                            res_authorizedDids = []\<rparr>), s)"
proof -
  have key: "origin \<in> fst ` set (authUrls s)"
    using entry by (metis map_of_eq_None_iff option.distinct(1))
  have nodup: "\<not> list_ex (\<lambda>request. ar_idStr request = Some origin) (map snd (authRequests s))"
  proof
    assume "list_ex (\<lambda>request. ar_idStr request = Some origin) (map snd (authRequests s))"
    then obtain p where p: "p \<in> set (authRequests s)" "ar_idStr (snd p) = Some origin"
      by (auto simp add: list_ex_iff)
    with inv have "prop_key (ar_idStr (snd p)) \<notin> fst ` set (authUrls s)"
      unfolding auth_consistent_def by blast
    with p(2) key show False by (simp add: prop_key_def)
  qed
  show ?thesis
    using url nodup entry by (simp add: authorizeUrl_def prop_key_def truthy_array_def)
qed


text \<open>
  The restriction of the reachable states to urls with an authority is needed. After a
  request for \<open>http://undefined/a\<close> and one for \<open>http:\<close>, approving the second
  stores an entry under the key \<open>'undefined'\<close> while the first is still pending, and
  \<open>authorizeUrl\<close> for the first url then fails on the duplicate check.
\<close>

lemma authorizeUrl_url_without_authority:
  "map fst (authUrls (exec (Resolve (AuthorizeApprove [] []) 2)
      (exec (RequestAuthorize ''http:'' ''app'')
        (exec (RequestAuthorize ''http://undefined/a'' ''app'') example_start)))) = [''undefined'']
   \<and> fst (authorizeUrl ''http://undefined/a'' ''app''
        (exec (Resolve (AuthorizeApprove [] []) 2)
          (exec (RequestAuthorize ''http:'' ''app'')
            (exec (RequestAuthorize ''http://undefined/a'' ''app'') example_start))))
       = Inl DuplicateRequest"
  by code_simp

section \<open>Approving and rejecting an authorize request\<close>

lemma pending_authorize_origin:
  assumes "auth_consistent s" and "map_of (authRequests s) i = Some r"
  shows "\<exists>origin. ar_idStr r = Some origin \<and> stripUrl (ar_url r) = Inr (Some origin)
           \<and> origin \<notin> fst ` set (authUrls s)"
proof -
  have "(i, r) \<in> set (authRequests s)" using assms(2) by (rule map_of_SomeD)
  with assms(1) have "ar_idStr r \<noteq> None \<and> stripUrl (ar_url r) = Inr (ar_idStr r)
        \<and> prop_key (ar_idStr r) \<notin> fst ` set (authUrls s)"
    unfolding auth_consistent_def by force
  then show ?thesis by (auto simp add: prop_key_def)
qed

text \<open>
  C9. Rejecting a pending authorize request, that is calling the reject continuation of
  its entry, succeeds in every reachable state and overwrites the default selection of
  authorized accounts and its durable copy with the empty list, whatever they held.
  (Deleting the request with \<open>authorize.delete.request\<close>, which does not go through the
  continuation, leaves both as they were.)
\<close>

theorem authorize_reject_clears_default_selection:
  assumes "reachable s" and "map_of (authRequests s) i = Some r"
  shows "fst (authComplete_reject i err s) = Inr ()
       \<and> defaultAuthAccountSelection (snd (authComplete_reject i err s)) = []
       \<and> storedDefaultAuthAccounts (snd (authComplete_reject i err s)) = Some []
       \<and> defaultAuthAccountSelection (deleteAuthRequest i s) = defaultAuthAccountSelection s
       \<and> storedDefaultAuthAccounts (deleteAuthRequest i s) = storedDefaultAuthAccounts s"
proof (cases rule: authComplete_reject_cases[of i err s])
  case (fail e)
  from pending_authorize_origin[OF _ assms(2)] reachable_invariant[OF assms(1)]
  obtain origin where "stripUrl (ar_url r) = Inr (Some origin)" by blast
  with fail(2) assms(2) show ?thesis by simp
next
  case (ok r' k s1)
  then show ?thesis by (simp add: deleteAuthRequest_def)
qed

text \<open>
  C6. In every reachable state, approving and rejecting a pending authorize request both
  succeed and both write an entry for the normalized origin of the request into the
  store and into its durable copy. The entry of an approval has the accounts and DIDs
  that were chosen and the counter 0; the entry of a rejection has empty lists of
  accounts and DIDs and the counter 0. After either, \<open>authorizeUrl\<close> for any url of that
  origin returns the short-circuit response and enqueues nothing.
\<close>

theorem authComplete_writes_entry:
  assumes "reachable s" and "map_of (authRequests s) i = Some r"
  shows "\<exists>origin. stripUrl (ar_url r) = Inr (Some origin)
     \<and> (let s1 = snd (authorizeApprove i accounts dids s);
             s2 = snd (authComplete_reject i err s)
         in fst (authorizeApprove i accounts dids s) = Inr True
          \<and> fst (authComplete_reject i err s) = Inr ()
          \<and> map_of (authUrls s1) origin =
              Some \<lparr>au_authorizedAccounts = accounts, au_authorizedDids = Some dids,
                    au_count = 0, au_id = Some origin, au_isAllowed = None,
                    au_origin = ar_request_origin r, au_url = ar_url r\<rparr>
          \<and> storedAuthUrls s1 = Some (authUrls s1)
          \<and> map_of (authUrls s2) origin =
              Some \<lparr>au_authorizedAccounts = [], au_authorizedDids = Some [],
                    au_count = 0, au_id = Some origin, au_isAllowed = None,
                    au_origin = ar_request_origin r, au_url = ar_url r\<rparr>
          \<and> storedAuthUrls s2 = Some (authUrls s2)
          \<and> (\<forall>url request_origin. stripUrl url = Inr (Some origin) \<longrightarrow>
                authorizeUrl url request_origin s1 =
                  (Inr (Returned \<lparr>res_result = False, res_authorizedAccounts = [],
                                   res_authorizedDids = []\<rparr>), s1)
              \<and> authorizeUrl url request_origin s2 =
                  (Inr (Returned \<lparr>res_result = False, res_authorizedAccounts = [],
                                   res_authorizedDids = []\<rparr>), s2)))"
proof -
  have inv: "auth_consistent s" using reachable_invariant[OF assms(1)] by simp
  from pending_authorize_origin[OF inv assms(2)] obtain origin where
    o: "ar_idStr r = Some origin" "stripUrl (ar_url r) = Inr (Some origin)" by blast
  define s1 where "s1 = snd (authorizeApprove i accounts dids s)"
  define s2 where "s2 = snd (authComplete_reject i err s)"
  have inv1: "auth_consistent s1"
    using resolve_command_auth[OF inv, of "AuthorizeApprove accounts dids" i] by (simp add: s1_def)
  have inv2: "auth_consistent s2"
    using exec_auth_consistent[OF inv, of "AuthorizeRejected i err"] reachable_invariant[OF assms(1)]
    by (simp add: s2_def)
  have a: "fst (authorizeApprove i accounts dids s) = Inr True
      \<and> map_of (authUrls s1) origin =
              Some \<lparr>au_authorizedAccounts = accounts, au_authorizedDids = Some dids,
                    au_count = 0, au_id = Some origin, au_isAllowed = None,
                    au_origin = ar_request_origin r, au_url = ar_url r\<rparr>
      \<and> storedAuthUrls s1 = Some (authUrls s1)"
  proof (cases rule: authorizeApprove_cases[of i accounts dids s])
    case (fail e)
    with assms(2) o show ?thesis by simp
  next
    case (ok r' k s')
    from ok(1) assms(2) have r': "r' = r" by simp
    with ok(2) o(2) have k: "k = Some origin" by simp
    from ok(3) ok(4) ok(13) show ?thesis
      unfolding k r' s1_def by (simp add: AList.update_conv' prop_key_def o(1))
  qed
  have b: "fst (authComplete_reject i err s) = Inr ()
      \<and> map_of (authUrls s2) origin =
              Some \<lparr>au_authorizedAccounts = [], au_authorizedDids = Some [],
                    au_count = 0, au_id = Some origin, au_isAllowed = None,
                    au_origin = ar_request_origin r, au_url = ar_url r\<rparr>
      \<and> storedAuthUrls s2 = Some (authUrls s2)"
  proof (cases rule: authComplete_reject_cases[of i err s])
    case (fail e)
    with assms(2) o show ?thesis by simp
  next
    case (ok r' k s')
    from ok(1) assms(2) have r': "r' = r" by simp
    with ok(2) o(2) have k: "k = Some origin" by simp
    from ok(3) ok(4) ok(13) show ?thesis
      unfolding k r' s2_def by (simp add: AList.update_conv' prop_key_def o(1))
  qed
  have c: "\<forall>url request_origin. stripUrl url = Inr (Some origin) \<longrightarrow>
                authorizeUrl url request_origin s1 =
                  (Inr (Returned \<lparr>res_result = False, res_authorizedAccounts = [],
                                   res_authorizedDids = []\<rparr>), s1)
              \<and> authorizeUrl url request_origin s2 =
                  (Inr (Returned \<lparr>res_result = False, res_authorizedAccounts = [],
                                   res_authorizedDids = []\<rparr>), s2)"
    using authorizeUrl_short_circuit[OF inv1] authorizeUrl_short_circuit[OF inv2] a b
    by blast
  from o(2) a b c show ?thesis
    unfolding Let_def s1_def s2_def by blast
qed

section \<open>The three theorems above on the example states\<close>

lemma reachable_example_authorized: "reachable example_authorized"
  unfolding example_authorized_def
  by (rule reachable.start) (simp add: example_stored_auth_def)

lemma reachable_example_authorized_pending: "reachable example_authorized_pending"
  unfolding example_authorized_pending_def
  by (rule reachable.step[OF reachable_example_authorized]) code_simp


theorem authorize_reject_clears_default_selection_witness:
  "defaultAuthAccountSelection example_authorized_pending = [''alice'', ''bob'']
   \<and> fst (authComplete_reject 1 Rejected example_authorized_pending) = Inr ()
   \<and> defaultAuthAccountSelection (snd (authComplete_reject 1 Rejected example_authorized_pending)) = []
   \<and> storedDefaultAuthAccounts (snd (authComplete_reject 1 Rejected example_authorized_pending))
       = Some []"
proof -
  have h2: "map_of (authRequests example_authorized_pending) 1 =
      Some \<lparr>ar_id = 1, ar_idStr = Some ''c.io'', ar_request_origin = ''newapp'',
            ar_url = ''https://c.io/x''\<rparr>"
    by code_simp
  have d: "defaultAuthAccountSelection example_authorized_pending = [''alice'', ''bob'']"
    by code_simp
  show ?thesis
    using authorize_reject_clears_default_selection[OF reachable_example_authorized_pending h2,
        of Rejected] d
    by simp
qed

theorem authComplete_writes_entry_witness:
  "let s1 = snd (authorizeApprove 1 [''alice''] [''did1''] example_authorized_pending);
       s2 = snd (authComplete_reject 1 Rejected example_authorized_pending)
   in map_of (authUrls s1) ''c.io'' =
        Some \<lparr>au_authorizedAccounts = [''alice''], au_authorizedDids = Some [''did1''],
              au_count = 0, au_id = Some ''c.io'', au_isAllowed = None,
              au_origin = ''newapp'', au_url = ''https://c.io/x''\<rparr>
    \<and> map_of (authUrls s2) ''c.io'' =
        Some \<lparr>au_authorizedAccounts = [], au_authorizedDids = Some [],
              au_count = 0, au_id = Some ''c.io'', au_isAllowed = None,
              au_origin = ''newapp'', au_url = ''https://c.io/x''\<rparr>
    \<and> authorizeUrl ''https://c.io/y'' ''newapp'' s2 =
         (Inr (Returned \<lparr>res_result = False, res_authorizedAccounts = [],
                          res_authorizedDids = []\<rparr>), s2)"
proof -
  have h2: "map_of (authRequests example_authorized_pending) 1 =
      Some \<lparr>ar_id = 1, ar_idStr = Some ''c.io'', ar_request_origin = ''newapp'',
            ar_url = ''https://c.io/x''\<rparr>"
    by code_simp
  have u1: "stripUrl ''https://c.io/x'' = Inr (Some ''c.io'')" by code_simp
  have u2: "stripUrl ''https://c.io/y'' = Inr (Some ''c.io'')" by code_simp
  from authComplete_writes_entry[OF reachable_example_authorized_pending h2,
      of "[''alice'']" "[''did1'']" Rejected]
  show ?thesis
    unfolding Let_def by (simp add: u1 u2)
qed

section \<open>Forgetting an account\<close>

lemma filter_absent: "a \<notin> set xs \<Longrightarrow> filter (\<lambda>x. x \<noteq> a) xs = xs"
  by (induction xs) auto

lemma forget_entry_clean:
  "address \<notin> set (au_authorizedAccounts (snd p)) \<Longrightarrow> forget_entry address p = p"
  by (simp add: forget_entry_def filter_absent)

lemma update_in_place:
  "k \<notin> fst ` set xs \<Longrightarrow> AList.update k v (xs @ (k, w) # ys) = xs @ (k, v) # ys"
  by (induction xs) auto

lemma map_of_in_place:
  "k \<notin> fst ` set xs \<Longrightarrow> map_of (xs @ (k, w) # ys) k = Some w"
  by (induction xs) auto

lemma accountsForget_forEach:
  assumes "distinct (map fst (done @ rest))"
  shows "updateAuthorizedAccounts_forEach (accountsForget_diff address rest) (done @ rest) =
           (Inr (), done @ map (forget_entry address) rest)"
  using assms
proof (induction rest arbitrary: "done")
  case Nil
  then show ?case by (simp add: accountsForget_diff_def)
next
  case (Cons p rest)
  obtain url info where p: "p = (url, info)" by (cases p)
  from Cons.prems have fresh: "url \<notin> fst ` set done"
    by (auto simp add: p)
  have dist: "\<And>q. distinct (map fst ((done @ [(url, q)]) @ rest))"
    using Cons.prems by (simp add: p)
  show ?case
  proof (cases "address \<in> set (au_authorizedAccounts info)")
    case False
    then have same: "forget_entry address (url, info) = (url, info)"
      by (simp add: forget_entry_clean)
    have "accountsForget_diff address (p # rest) = accountsForget_diff address rest"
      using False by (simp add: accountsForget_diff_def p)
    with Cons.IH[OF dist[of info]] same show ?thesis by (simp add: p)
  next
    case True
    define info' where "info' = info\<lparr>au_authorizedAccounts :=
        filter (\<lambda>previousAddress. previousAddress \<noteq> address) (au_authorizedAccounts info)\<rparr>"
    have e: "forget_entry address (url, info) = (url, info')"
      by (simp add: forget_entry_def info'_def)
    have d: "accountsForget_diff address ((url, info) # rest) =
          (url, filter (\<lambda>previousAddress. previousAddress \<noteq> address) (au_authorizedAccounts info), None)
            # accountsForget_diff address rest"
      using True by (simp add: accountsForget_diff_def)
    have "updateAuthorizedAccounts_forEach (accountsForget_diff address (p # rest)) (done @ p # rest)
        = updateAuthorizedAccounts_forEach (accountsForget_diff address rest)
            ((done @ [(url, info')]) @ rest)"
      unfolding p d updateAuthorizedAccounts_forEach.simps map_of_in_place[OF fresh]
        Let_def option.case update_in_place[OF fresh] info'_def
      by simp
    with Cons.IH[OF dist[of info']] e show ?thesis by (simp add: p)
  qed
qed

lemma accountsForget_diff_clean:
  assumes "\<forall>p \<in> set au. address \<notin> set (au_authorizedAccounts (snd p))"
  shows "accountsForget_diff address au = []"
  using assms by (induction au) (auto simp add: accountsForget_diff_def)

lemma accountsForget_state:
  assumes "distinct (map fst (authUrls s))"
  shows "accountsForget address s =
     (Inr True,
      s\<lparr>authUrls := map (forget_entry address) (authUrls s),
        storedAuthUrls := Some (map (forget_entry address) (authUrls s)),
        defaultAuthAccountSelection :=
          filter (\<lambda>a. a \<noteq> address) (defaultAuthAccountSelection s),
        storedDefaultAuthAccounts :=
          Some (filter (\<lambda>a. a \<noteq> address) (defaultAuthAccountSelection s)),
        keyringPairs := AList.delete address (keyringPairs s)\<rparr>)"
proof -
  have "updateAuthorizedAccounts_forEach (accountsForget_diff address (authUrls s)) (authUrls s)
      = (Inr (), map (forget_entry address) (authUrls s))"
    using accountsForget_forEach[of "[]" "authUrls s" address] assms by simp
  then show ?thesis
    by (simp add: accountsForget_def updateAuthorizedAccounts_def saveCurrentAuthList_def
        updateDefaultAuthAccounts_def saveDefaultAuthAccounts_def Let_def)
qed

text \<open>
  C8. In every reachable state \<open>accountsForget(address)\<close> succeeds; afterwards no entry of
  the authorization store lists the address among its authorized accounts, the default
  selection does not contain it, and both durable copies agree with the state. Applying
  it again succeeds and leaves the whole state, the store and the default selection
  included, as the first application left it.
\<close>

theorem accountsForget_removes_and_idempotent:
  assumes "reachable s"
  shows "fst (accountsForget address s) = Inr True
     \<and> (let s1 = snd (accountsForget address s)
        in (\<forall>p \<in> set (authUrls s1). address \<notin> set (au_authorizedAccounts (snd p)))
         \<and> address \<notin> set (defaultAuthAccountSelection s1)
         \<and> storedAuthUrls s1 = Some (authUrls s1)
         \<and> storedDefaultAuthAccounts s1 = Some (defaultAuthAccountSelection s1)
         \<and> accountsForget address s1 = (Inr True, s1))"
proof -
  have d: "distinct (map fst (authUrls s))"
    using reachable_invariant[OF assms] by (simp add: auth_consistent_def)
  define s1 where "s1 = snd (accountsForget address s)"
  have s1: "accountsForget address s = (Inr True, s1)"
    "authUrls s1 = map (forget_entry address) (authUrls s)"
    "defaultAuthAccountSelection s1 = filter (\<lambda>a. a \<noteq> address) (defaultAuthAccountSelection s)"
    "storedAuthUrls s1 = Some (authUrls s1)"
    "storedDefaultAuthAccounts s1 = Some (defaultAuthAccountSelection s1)"
    "keyringPairs s1 = AList.delete address (keyringPairs s)"
    unfolding s1_def by (simp_all add: accountsForget_state[OF d])
  have clean: "\<forall>p \<in> set (authUrls s1). address \<notin> set (au_authorizedAccounts (snd p))"
    by (auto simp add: s1(2) forget_entry_def)
  have d1: "distinct (map fst (authUrls s1))"
    using d by (simp add: s1(2) forget_entry_def comp_def)
  have same: "map (forget_entry address) (authUrls s1) = authUrls s1"
    using clean by (intro map_idI) (simp add: forget_entry_clean)
  have "accountsForget address s1 = (Inr True, s1)"
    unfolding accountsForget_state[OF d1] same
    by (simp add: s1(3,4,5,6) AList.delete_idem)
  with s1 clean show ?thesis
    unfolding Let_def s1_def[symmetric] by simp
qed

theorem accountsForget_removes_and_idempotent_witness:
  "fst (accountsForget ''bob'' example_authorized) = Inr True
   \<and> (let s1 = snd (accountsForget ''bob'' example_authorized)
      in map (\<lambda>p. au_authorizedAccounts (snd p)) (authUrls s1) = [[''alice''], []]
       \<and> defaultAuthAccountSelection s1 = [''alice'']
       \<and> accountsForget ''bob'' s1 = (Inr True, s1))"
proof -
  have a: "map (\<lambda>p. au_authorizedAccounts (snd p))
             (authUrls (snd (accountsForget ''bob'' example_authorized))) = [[''alice''], []]"
    by code_simp
  have b: "defaultAuthAccountSelection (snd (accountsForget ''bob'' example_authorized)) = [''alice'']"
    by code_simp
  from accountsForget_removes_and_idempotent[OF reachable_example_authorized, of "''bob''"] a b
  show ?thesis
    unfolding Let_def by simp
qed

section \<open>A settled request cannot be settled again\<close>





lemma resolve_command_returns_settled:
  assumes "fst (resolve_command c i s) = Inr b"
  shows "settled (snd (resolve_command c i s)) \<noteq> settled s"
proof (cases c)
  case (AuthorizeApprove a d)
  show ?thesis
  proof (cases rule: authorizeApprove_cases[of i a d s])
    case (fail e)
    with AuthorizeApprove assms show ?thesis by simp
  next
    case (ok r k s1)
    with AuthorizeApprove show ?thesis by simp
  qed
next
  case (SigningApprovePassword now ex p sv)
  show ?thesis
  proof (cases "map_of (signRequests s) i")
    case None
    with SigningApprovePassword assms show ?thesis
      by (simp add: signingApprovePassword_def getSignRequest_def)
  next
    case (Some q)
    show ?thesis
    proof (cases "map_of (keyringPairs s) (sr_account_address q)")
      case None
      with Some SigningApprovePassword show ?thesis
        by (simp add: signingApprovePassword_def getSignRequest_def Let_def)
    next
      case (Some pair)
      define a where "a = sr_account_address q"
      define s1 where "s1 = snd (refreshAccountPasswordCache now a s)"
      define s2 where "s2 = (if pair_isLocked a s1 \<and> p = []
                             then signComplete_reject i PasswordNeeded s1 else s1)"
      define d where "d = (if pair_isLocked a s2 then pair_decodePkcs8 a p s2 else (Inr (), s2))"
      have r: "signingApprovePassword now ex i p sv s = (case d of (Inl e, s3) \<Rightarrow> (Inl e, s3)
                    | (Inr u, s3) \<Rightarrow>
                        (Inr True, signComplete_resolve i (i, request_sign (sr_request q) a)
                           (if sv then s3\<lparr>cachedUnlocks := AList.update a (now + ex) (cachedUnlocks s3)\<rparr>
                            else pair_lock a s3)))"
        using \<open>map_of (signRequests s) i = Some q\<close> Some
        unfolding signingApprovePassword_def getSignRequest_def Let_def a_def s1_def s2_def d_def
        by simp
      have len: "length (settled (snd d)) \<ge> length (settled s)"
        by (simp add: d_def s2_def s1_def)
      show ?thesis
      proof (cases d)
        case (Pair res s3)
        show ?thesis
        proof (cases res)
          case (Inl e)
          from r have "fst (signingApprovePassword now ex i p sv s) = Inl e"
            unfolding Pair Inl by simp
          with SigningApprovePassword assms show ?thesis by simp
        next
          case (Inr u)
          from r have "signingApprovePassword now ex i p sv s =
              (Inr True, signComplete_resolve i (i, request_sign (sr_request q) a)
                           (if sv then s3\<lparr>cachedUnlocks := AList.update a (now + ex) (cachedUnlocks s3)\<rparr>
                            else pair_lock a s3))"
            unfolding Pair Inr by simp
          then have "length (settled (snd (signingApprovePassword now ex i p sv s)))
              = Suc (length (settled (snd d)))"
            by (simp add: Pair)
          with len have "length (settled (snd (signingApprovePassword now ex i p sv s)))
              \<noteq> length (settled s)" by simp
          then show ?thesis using SigningApprovePassword by auto
        qed
      qed
    qed
  qed
qed (use assms in \<open>auto simp add: metadataApprove_def metadataReject_def
      signingApproveSignature_def signingCancel_def didsSignApprove_def didsSignCancel_def
      getMetaRequest_def getSignRequest_def getDidSignRequest_def Let_def
      split: option.splits if_splits\<close>)






section \<open>Errors raised by the approval commands\<close>

lemma refreshAccountPasswordCache_locked:
  assumes "map_of (keyringPairs s) a = Some pair" and "kp_isLocked pair"
  shows "map_of (keyringPairs (snd (refreshAccountPasswordCache now a s))) a = Some pair"
  using assms
  by (simp add: refreshAccountPasswordCache_def pair_lock_def Let_def AList.update_conv')

lemma signingApprovePassword_decode_throws:
  assumes q: "getSignRequest i s = Some queued"
    and pair: "map_of (keyringPairs s) (sr_account_address queued) = Some pair"
    and locked: "kp_isLocked pair"
    and nonempty: "password \<noteq> []"
    and wrong: "password \<noteq> kp_passphrase pair"
  shows "signingApprovePassword now expiry i password savePass s =
           (Inl WrongPassword, snd (refreshAccountPasswordCache now (sr_account_address queued) s))"
proof -
  define a where "a = sr_account_address queued"
  define s1 where "s1 = snd (refreshAccountPasswordCache now a s)"
  have p1: "map_of (keyringPairs s1) a = Some pair"
    unfolding s1_def using pair locked
    by (intro refreshAccountPasswordCache_locked) (simp_all add: a_def)
  then have l1: "pair_isLocked a s1" using locked by (simp add: pair_isLocked_def)
  have d: "pair_decodePkcs8 a password s1 = (Inl WrongPassword, s1)"
    using p1 wrong by (simp add: pair_decodePkcs8_def)
  show ?thesis
    using q pair nonempty l1[unfolded s1_def a_def] d[unfolded s1_def a_def]
    unfolding signingApprovePassword_def Let_def
    by simp
qed

text \<open>
  C2, as amended. For every pending sign request whose keyring pair is locked,
  \<open>signingApprovePassword\<close> with a password that is not empty and not the passphrase of
  the pair throws the keyring's error to the caller of the command. No continuation of
  the request is called: it is neither rejected nor resolved, so no signature is
  produced, and its entry stays in the sign-request table, where the request can be
  approved again or cancelled. The four pending tables are as they were.
\<close>

theorem signingApprovePassword_wrong_password:
  assumes "getSignRequest i s = Some queued"
    and "map_of (keyringPairs s) (sr_account_address queued) = Some pair"
    and "kp_isLocked pair"
    and "password \<noteq> []"
    and "password \<noteq> kp_passphrase pair"
  shows "fst (signingApprovePassword now expiry i password savePass s) = Inl WrongPassword
       \<and> settled (snd (signingApprovePassword now expiry i password savePass s)) = settled s
       \<and> signRequests (snd (signingApprovePassword now expiry i password savePass s)) = signRequests s
       \<and> getSignRequest i (snd (signingApprovePassword now expiry i password savePass s)) = Some queued
       \<and> authRequests (snd (signingApprovePassword now expiry i password savePass s)) = authRequests s
       \<and> metaRequests (snd (signingApprovePassword now expiry i password savePass s)) = metaRequests s
       \<and> didSignRequests (snd (signingApprovePassword now expiry i password savePass s))
           = didSignRequests s"
  using assms(1)
  unfolding signingApprovePassword_decode_throws[OF assms]
  by (simp add: getSignRequest_def)

theorem signingApprovePassword_wrong_password_counterexample:
  "fst (signingApprovePassword 0 900000 1 ''guess'' False example_sign_pending) = Inl WrongPassword
   \<and> getSignRequest 1 (snd (signingApprovePassword 0 900000 1 ''guess'' False example_sign_pending))
       = Some \<lparr>sr_account_address = ''alice'', sr_id = 1,
               sr_request = PayloadRaw ''alice'' ''0xdeadbeef'', sr_url = ''https://a.com/x''\<rparr>
   \<and> settled (snd (signingApprovePassword 0 900000 1 ''guess'' False example_sign_pending)) = []
   \<and> pair_isLocked ''alice'' example_sign_pending"
  by code_simp

theorem signingApprovePassword_wrong_password_witness:
  "fst (signingApprovePassword 5 900000 1 ''letmein'' True example_sign_pending) = Inl WrongPassword
   \<and> settled (snd (signingApprovePassword 5 900000 1 ''letmein'' True example_sign_pending)) = []
   \<and> map fst (signRequests (snd (signingApprovePassword 5 900000 1 ''letmein'' True
                                    example_sign_pending))) = [1]"
proof -
  have h1: "getSignRequest 1 example_sign_pending =
      Some \<lparr>sr_account_address = ''alice'', sr_id = 1,
               sr_request = PayloadRaw ''alice'' ''0xdeadbeef'', sr_url = ''https://a.com/x''\<rparr>"
    by code_simp
  have h2: "map_of (keyringPairs example_sign_pending)
      (sr_account_address \<lparr>sr_account_address = ''alice'', sr_id = 1,
               sr_request = PayloadRaw ''alice'' ''0xdeadbeef'', sr_url = ''https://a.com/x''\<rparr>)
      = Some \<lparr>kp_isLocked = True, kp_passphrase = ''secret''\<rparr>"
    by code_simp
  have h3: "kp_isLocked \<lparr>kp_isLocked = True, kp_passphrase = ''secret''\<rparr>" by simp
  have h4: "''letmein'' \<noteq> []" by simp
  have h5: "''letmein'' \<noteq> kp_passphrase \<lparr>kp_isLocked = True, kp_passphrase = ''secret''\<rparr>"
    by simp
  have e: "settled example_sign_pending = []"
    "map fst (signRequests example_sign_pending) = [1]" by code_simp+
  from signingApprovePassword_wrong_password[OF h1 h2 h3 h4 h5, of 5 900000 True] e
  show ?thesis by simp
qed

text \<open>
  C3, as amended. A cancellation (\<open>signingCancel\<close>, \<open>didsSignCancel\<close>), a metadata
  rejection and a wrong DID password in \<open>didsSignApprove\<close> reject the pending request
  and delete its entry in the same step. A DID that is not in the DID store, and a
  wrong non-empty password for a locked account in \<open>signingApprovePassword\<close>, are thrown
  to the caller of the command instead: no continuation is called and the entry stays
  in its table, where it can still be approved or cancelled.
\<close>

theorem erroring_resolution_entry:
  "(getSignRequest i s \<noteq> None \<longrightarrow>
      signingCancel i s = (Inr True, signComplete_reject i Cancelled s)
      \<and> getSignRequest i (snd (signingCancel i s)) = None
      \<and> settled (snd (signingCancel i s)) = settled s @ [(i, RejectedWith Cancelled)])
 \<and> (getDidSignRequest i s \<noteq> None \<longrightarrow>
      didsSignCancel i s = (Inr True, didSignComplete_reject i Cancelled s)
      \<and> getDidSignRequest i (snd (didsSignCancel i s)) = None
      \<and> settled (snd (didsSignCancel i s)) = settled s @ [(i, RejectedWith Cancelled)])
 \<and> (getMetaRequest i s \<noteq> None \<longrightarrow>
      metadataReject i s = (Inr True, metaComplete_reject i Rejected s)
      \<and> getMetaRequest i (snd (metadataReject i s)) = None
      \<and> settled (snd (metadataReject i s)) = settled s @ [(i, RejectedWith Rejected)])
 \<and> (\<forall>dq didJson. getDidSignRequest i s = Some dq
        \<and> map_of (didsStore s) (''did:'' @ dr_did dq) = Some didJson
        \<and> dj_passphrase didJson \<noteq> password \<longrightarrow>
      didsSignApprove i password s = (Inr False, didSignComplete_reject i WrongDidPassword s)
      \<and> getDidSignRequest i (snd (didsSignApprove i password s)) = None
      \<and> settled (snd (didsSignApprove i password s)) =
           settled s @ [(i, RejectedWith WrongDidPassword)])
 \<and> (\<forall>dq. getDidSignRequest i s = Some dq
        \<and> map_of (didsStore s) (''did:'' @ dr_did dq) = None \<longrightarrow>
      didsSignApprove i password s = (Inl DidNotFound, s))
 \<and> (\<forall>sq pair. getSignRequest i s = Some sq
        \<and> map_of (keyringPairs s) (sr_account_address sq) = Some pair
        \<and> kp_isLocked pair \<and> password \<noteq> [] \<and> password \<noteq> kp_passphrase pair \<longrightarrow>
      fst (signingApprovePassword now expiry i password savePass s) = Inl WrongPassword
      \<and> getSignRequest i (snd (signingApprovePassword now expiry i password savePass s)) = Some sq
      \<and> settled (snd (signingApprovePassword now expiry i password savePass s)) = settled s)"
proof (intro conjI impI allI)
  assume "getSignRequest i s \<noteq> None"
  then show "signingCancel i s = (Inr True, signComplete_reject i Cancelled s)"
    by (auto simp add: signingCancel_def)
  then show "getSignRequest i (snd (signingCancel i s)) = None"
    "settled (snd (signingCancel i s)) = settled s @ [(i, RejectedWith Cancelled)]"
    by (simp_all add: getSignRequest_def AList.delete_conv')
next
  assume "getDidSignRequest i s \<noteq> None"
  then show "didsSignCancel i s = (Inr True, didSignComplete_reject i Cancelled s)"
    by (auto simp add: didsSignCancel_def)
  then show "getDidSignRequest i (snd (didsSignCancel i s)) = None"
    "settled (snd (didsSignCancel i s)) = settled s @ [(i, RejectedWith Cancelled)]"
    by (simp_all add: getDidSignRequest_def AList.delete_conv')
next
  assume "getMetaRequest i s \<noteq> None"
  then show "metadataReject i s = (Inr True, metaComplete_reject i Rejected s)"
    by (auto simp add: metadataReject_def)
  then show "getMetaRequest i (snd (metadataReject i s)) = None"
    "settled (snd (metadataReject i s)) = settled s @ [(i, RejectedWith Rejected)]"
    by (simp_all add: getMetaRequest_def AList.delete_conv')
next
  fix dq didJson
  assume "getDidSignRequest i s = Some dq
        \<and> map_of (didsStore s) (''did:'' @ dr_did dq) = Some didJson
        \<and> dj_passphrase didJson \<noteq> password"
  then show "didsSignApprove i password s = (Inr False, didSignComplete_reject i WrongDidPassword s)"
    by (simp add: didsSignApprove_def)
  then show "getDidSignRequest i (snd (didsSignApprove i password s)) = None"
    "settled (snd (didsSignApprove i password s)) = settled s @ [(i, RejectedWith WrongDidPassword)]"
    by (simp_all add: getDidSignRequest_def AList.delete_conv')
next
  fix dq
  assume "getDidSignRequest i s = Some dq \<and> map_of (didsStore s) (''did:'' @ dr_did dq) = None"
  then show "didsSignApprove i password s = (Inl DidNotFound, s)"
    by (simp add: didsSignApprove_def)
next
  fix sq pair
  assume a: "getSignRequest i s = Some sq
        \<and> map_of (keyringPairs s) (sr_account_address sq) = Some pair
        \<and> kp_isLocked pair \<and> password \<noteq> [] \<and> password \<noteq> kp_passphrase pair"
  then have a': "getSignRequest i s = Some sq"
    "map_of (keyringPairs s) (sr_account_address sq) = Some pair"
    "kp_isLocked pair" "password \<noteq> []" "password \<noteq> kp_passphrase pair"
    by simp_all
  have t: "signingApprovePassword now expiry i password savePass s =
           (Inl WrongPassword, snd (refreshAccountPasswordCache now (sr_account_address sq) s))"
    by (rule signingApprovePassword_decode_throws[OF a'])
  from a show "fst (signingApprovePassword now expiry i password savePass s) = Inl WrongPassword"
    "getSignRequest i (snd (signingApprovePassword now expiry i password savePass s)) = Some sq"
    "settled (snd (signingApprovePassword now expiry i password savePass s)) = settled s"
    unfolding t by (simp_all add: getSignRequest_def)
qed

theorem erroring_resolution_entry_counterexample:
  "didsSignApprove 1 ''didpw'' example_did_sign_pending = (Inl DidNotFound, example_did_sign_pending)
   \<and> getDidSignRequest 1 example_did_sign_pending =
       Some \<lparr>dr_did = ''did2'', dr_id = 1, dr_name = None,
             dr_request = PayloadRaw ''did2key'' ''0xdeadbeef'', dr_url = ''https://a.com/x''\<rparr>
   \<and> settled example_did_sign_pending = []"
  by code_simp

theorem erroring_resolution_entry_witness:
  "didsSignApprove 1 ''didpw'' example_did_sign_pending = (Inl DidNotFound, example_did_sign_pending)
   \<and> fst (didsSignCancel 1 example_did_sign_pending) = Inr True
   \<and> getDidSignRequest 1 (snd (didsSignCancel 1 example_did_sign_pending)) = None
   \<and> settled (snd (didsSignCancel 1 example_did_sign_pending)) = [(1, RejectedWith Cancelled)]"
proof -
  have q: "getDidSignRequest 1 example_did_sign_pending =
       Some \<lparr>dr_did = ''did2'', dr_id = 1, dr_name = None,
             dr_request = PayloadRaw ''did2key'' ''0xdeadbeef'', dr_url = ''https://a.com/x''\<rparr>"
    by code_simp
  have m: "map_of (didsStore example_did_sign_pending) (''did:'' @ dr_did
       \<lparr>dr_did = ''did2'', dr_id = 1, dr_name = None,
             dr_request = PayloadRaw ''did2key'' ''0xdeadbeef'', dr_url = ''https://a.com/x''\<rparr>)
       = None"
    by code_simp
  have e: "settled example_did_sign_pending = []" by code_simp
  note t = erroring_resolution_entry[of 1 example_did_sign_pending "''didpw''" 0 0 False]
  from t q m have miss: "didsSignApprove 1 ''didpw'' example_did_sign_pending
      = (Inl DidNotFound, example_did_sign_pending)"
    by blast
  from t q have cancel: "didsSignCancel 1 example_did_sign_pending
        = (Inr True, didSignComplete_reject 1 Cancelled example_did_sign_pending)"
      "getDidSignRequest 1 (snd (didsSignCancel 1 example_did_sign_pending)) = None"
      "settled (snd (didsSignCancel 1 example_did_sign_pending)) =
           settled example_did_sign_pending @ [(1, RejectedWith Cancelled)]"
    by blast+
  from cancel(1) have "fst (didsSignCancel 1 example_did_sign_pending) = Inr True"
    by (rule arg_cong[where f = fst, THEN trans]) simp
  with miss cancel(2) cancel(3)[unfolded e] show ?thesis
    by (intro conjI) simp_all
qed

text \<open>
  C7, on an input where it fails. The store holds the definitions of both genesis hashes
  of one network. When the superseded one is iterated first, the pass removes it from
  the store; when it is iterated after the current one, the pass skips it and the store
  keeps both. The registry receives the current definition alone in both orders.
\<close>

theorem extractMetadata_keeps_superseded_entry:
  "map fst (metaStore (new_State example_known_genesis example_meta_newer_first
                         None None ''popup'' [] [])) = [''0xb0a8'', ''0xe377'']
   \<and> map fst (metaStore (new_State example_known_genesis example_meta_older_first
                         None None ''popup'' [] [])) = [''0xb0a8'']
   \<and> snd (extractMetadata_scan example_known_genesis example_meta_newer_first) = []
   \<and> snd (extractMetadata_scan example_known_genesis example_meta_older_first) = [''0xe377'']
   \<and> map fst (chainMetadata (new_State example_known_genesis example_meta_newer_first
                         None None ''popup'' [] [])) = [''0xb0a8'']
   \<and> map fst (chainMetadata (new_State example_known_genesis example_meta_older_first
                         None None ''popup'' [] [])) = [''0xb0a8'']"
  by code_simp

end
